(* ===== verification/Secsy_Prelude.thy ===== *)
theory Secsy_Prelude
  imports Main "HOL-Library.Word" "HOL-Library.Sublist"
begin

text \<open>
  Shared vocabulary of the development: the fixed-width integers of the Go
  sources, the result type of fallible functions, the string operations of
  package \<^verbatim>\<open>strings\<close> that the sources call (on the ASCII range), hexadecimal
  text, big-endian integers and the length-prefixed fields every hash
  canonicalisation in the program is built from.

  Two collections carry the component proofs: \<^verbatim>\<open>enc_simps\<close> holds the length and
  injectivity facts of the encoders, \<^verbatim>\<open>str_simps\<close> the facts of the string
  operations.
\<close>

named_theorems enc_simps \<open>length and injectivity of the byte encoders\<close>
named_theorems str_simps \<open>facts of the string operations\<close>

unbundle bit_operations_syntax

section \<open>Go's basic types\<close>

type_synonym byte = "8 word"
type_synonym u16 = "16 word"
type_synonym u32 = "32 word"
type_synonym i64 = "64 word"

text \<open>A call that returns a value or an error: \<^verbatim>\<open>Inl\<close> is the non-nil error.\<close>

type_synonym ('e, 'a) result = "'e + 'a"

text \<open>
  A hash primitive: \<^verbatim>\<open>sha256.Sum256\<close> and the like. The development quantifies over
  it; where binding of a hash matters the statements say what a violation would
  yield, namely two different inputs with one digest.
\<close>

type_synonym hash_fn = "byte list \<Rightarrow> byte list"

definition collision :: "hash_fn \<Rightarrow> bool" where
  "collision H \<longleftrightarrow> (\<exists>x y. x \<noteq> y \<and> H x = H y)"

lemma collision_or_eq [intro]: "H x = H y \<Longrightarrow> collision H \<or> x = y"
  by (auto simp: collision_def)

lemma no_collision_inj: "\<not> collision H \<longleftrightarrow> inj H"
  by (auto simp: collision_def inj_def)

section \<open>Strings\<close>

text \<open>A Go string is a sequence of bytes; \<^verbatim>\<open>[]byte(s)\<close> is this conversion.\<close>

definition str_bytes :: "string \<Rightarrow> byte list" where
  "str_bytes s = map of_char s"

lemma of_char_byte_inj: "(of_char c :: byte) = of_char d \<longleftrightarrow> c = d"
proof
  assume "(of_char c :: byte) = of_char d"
  then have "(of_nat (of_char c) :: byte) = of_nat (of_char d)"
    by (simp only: of_nat_of_char)
  then have "(of_char c :: nat) mod 256 = of_char d mod 256"
    by (simp add: word_of_nat_eq_iff take_bit_eq_mod)
  then show "c = d"
    by simp
qed simp

lemma str_bytes_inj [enc_simps]: "str_bytes s = str_bytes t \<longleftrightarrow> s = t"
proof -
  have "inj (of_char :: char \<Rightarrow> byte)"
    by (rule injI) (simp only: of_char_byte_inj)
  then show ?thesis
    unfolding str_bytes_def by (rule inj_map_eq_map)
qed

lemma length_str_bytes [simp, enc_simps]: "length (str_bytes s) = length s"
  by (simp add: str_bytes_def)

lemma str_bytes_append [enc_simps]: "str_bytes (s @ t) = str_bytes s @ str_bytes t"
  by (simp add: str_bytes_def)

text \<open>\<^verbatim>\<open>strings.ToLower\<close> and \<^verbatim>\<open>strings.EqualFold\<close> on the ASCII range.\<close>

definition lower_char :: "char \<Rightarrow> char" where
  "lower_char c =
     (let n = (of_char c :: nat) in if 65 \<le> n \<and> n \<le> 90 then char_of (n + 32) else c)"

definition to_lower :: "string \<Rightarrow> string" where
  "to_lower s = map lower_char s"

definition equal_fold :: "string \<Rightarrow> string \<Rightarrow> bool" where
  "equal_fold s t \<longleftrightarrow> to_lower s = to_lower t"

lemma lower_char_idem [simp, str_simps]: "lower_char (lower_char c) = lower_char c"
  by (simp add: lower_char_def Let_def)

lemma to_lower_idem [simp, str_simps]: "to_lower (to_lower s) = to_lower s"
  by (simp add: to_lower_def)

lemma length_to_lower [simp, str_simps]: "length (to_lower s) = length s"
  by (simp add: to_lower_def)

lemma to_lower_append [simp, str_simps]: "to_lower (s @ t) = to_lower s @ to_lower t"
  by (simp add: to_lower_def)

lemma to_lower_Nil [simp, str_simps]: "to_lower [] = []"
  by (simp add: to_lower_def)

lemma to_lower_eq_Nil [simp, str_simps]: "to_lower s = [] \<longleftrightarrow> s = []"
  by (simp add: to_lower_def)

lemma equal_fold_refl [simp, str_simps]: "equal_fold s s"
  by (simp add: equal_fold_def)

lemma equal_fold_sym: "equal_fold s t \<Longrightarrow> equal_fold t s"
  by (simp add: equal_fold_def)

lemma equal_fold_trans [trans]: "equal_fold s t \<Longrightarrow> equal_fold t u \<Longrightarrow> equal_fold s u"
  by (simp add: equal_fold_def)

lemma equal_fold_lower [simp, str_simps]:
  "equal_fold (to_lower s) t \<longleftrightarrow> equal_fold s t"
  "equal_fold s (to_lower t) \<longleftrightarrow> equal_fold s t"
  by (simp_all add: equal_fold_def)

text \<open>\<^verbatim>\<open>strings.TrimSpace\<close> on the ASCII white space.\<close>

definition is_space :: "char \<Rightarrow> bool" where
  "is_space c = (let n = (of_char c :: nat) in n = 32 \<or> (9 \<le> n \<and> n \<le> 13))"

definition trim_space :: "string \<Rightarrow> string" where
  "trim_space s = rev (dropWhile is_space (rev (dropWhile is_space s)))"

lemma trim_space_no_space [str_simps]:
  "(\<forall>c\<in>set s. \<not> is_space c) \<Longrightarrow> trim_space s = s"
proof -
  have keep: "dropWhile is_space t = t" if "\<forall>c\<in>set t. \<not> is_space c" for t
    using that by (cases t) auto
  assume "\<forall>c\<in>set s. \<not> is_space c"
  then show ?thesis
    by (simp add: trim_space_def keep)
qed

text \<open>Substring search: \<^verbatim>\<open>strings.Index\<close>, with \<^verbatim>\<open>None\<close> for the result \<open>-1\<close>.\<close>

definition has_prefix :: "string \<Rightarrow> string \<Rightarrow> bool" where
  "has_prefix s p \<longleftrightarrow> prefix p s"

definition has_suffix :: "string \<Rightarrow> string \<Rightarrow> bool" where
  "has_suffix s p \<longleftrightarrow> suffix p s"

definition trim_suffix :: "string \<Rightarrow> string \<Rightarrow> string" where
  "trim_suffix s p = (if has_suffix s p then take (length s - length p) s else s)"

definition trim_prefix :: "string \<Rightarrow> string \<Rightarrow> string" where
  "trim_prefix s p = (if has_prefix s p then drop (length p) s else s)"

fun index_from :: "nat \<Rightarrow> string \<Rightarrow> string \<Rightarrow> nat option" where
  "index_from i s p =
     (if prefix p s then Some i
      else case s of [] \<Rightarrow> None | c # s' \<Rightarrow> index_from (Suc i) s' p)"

declare index_from.simps [simp del]

definition str_index :: "string \<Rightarrow> string \<Rightarrow> nat option" where
  "str_index s p = index_from 0 s p"

text \<open>\<^verbatim>\<open>strings.IndexByte\<close> and \<^verbatim>\<open>strings.LastIndex\<close> of a single character.\<close>

fun char_index :: "string \<Rightarrow> char \<Rightarrow> nat option" where
  "char_index [] c = None"
| "char_index (x # s) c = (if x = c then Some 0 else map_option Suc (char_index s c))"

definition char_last_index :: "string \<Rightarrow> char \<Rightarrow> nat option" where
  "char_last_index s c =
     (case char_index (rev s) c of None \<Rightarrow> None | Some i \<Rightarrow> Some (length s - 1 - i))"

lemma char_index_None [str_simps]: "char_index s c = None \<longleftrightarrow> c \<notin> set s"
  by (induction s) auto

lemma char_index_append [str_simps]:
  "c \<notin> set s \<Longrightarrow> char_index (s @ c # t) c = Some (length s)"
  by (induction s) auto

lemma char_last_index_append [str_simps]:
  "c \<notin> set t \<Longrightarrow> char_last_index (s @ c # t) c = Some (length s)"
  by (simp add: char_last_index_def char_index_append)

text \<open>\<^verbatim>\<open>strings.Split\<close> at a single character, and \<^verbatim>\<open>strings.Join\<close>.\<close>

fun split_char :: "char \<Rightarrow> string \<Rightarrow> string list" where
  "split_char c [] = [[]]"
| "split_char c (x # s) =
     (if x = c then [] # split_char c s
      else case split_char c s of [] \<Rightarrow> [[x]] | w # ws \<Rightarrow> (x # w) # ws)"

fun join_with :: "string \<Rightarrow> string list \<Rightarrow> string" where
  "join_with sep [] = []"
| "join_with sep [w] = w"
| "join_with sep (w # v # ws) = w @ sep @ join_with sep (v # ws)"

section \<open>Hexadecimal text\<close>

text \<open>\<^verbatim>\<open>hex.EncodeToString\<close> and \<^verbatim>\<open>hex.DecodeString\<close> (which accepts both cases).\<close>

definition hex_digit :: "nat \<Rightarrow> char" where
  "hex_digit n = (if n < 10 then char_of (48 + n) else char_of (87 + n))"

definition hex_value :: "char \<Rightarrow> nat option" where
  "hex_value c =
     (let n = (of_char c :: nat) in
      if 48 \<le> n \<and> n \<le> 57 then Some (n - 48)
      else if 97 \<le> n \<and> n \<le> 102 then Some (n - 87)
      else if 65 \<le> n \<and> n \<le> 70 then Some (n - 55)
      else None)"

fun hex_encode :: "byte list \<Rightarrow> string" where
  "hex_encode [] = []"
| "hex_encode (b # bs) =
     hex_digit (unat b div 16) # hex_digit (unat b mod 16) # hex_encode bs"

fun hex_decode :: "string \<Rightarrow> byte list option" where
  "hex_decode [] = Some []"
| "hex_decode [c] = None"
| "hex_decode (c # d # s) =
     (case (hex_value c, hex_value d, hex_decode s) of
        (Some h, Some l, Some bs) \<Rightarrow> Some (word_of_nat (16 * h + l) # bs)
      | _ \<Rightarrow> None)"

lemma hex_value_digit [simp]: "n < 16 \<Longrightarrow> hex_value (hex_digit n) = Some n"
  by (simp add: hex_value_def hex_digit_def Let_def)

lemma lower_hex_digit [simp]: "n < 16 \<Longrightarrow> lower_char (hex_digit n) = hex_digit n"
  by (simp add: lower_char_def hex_digit_def Let_def)

lemma unat_byte_less [simp]: "unat (b :: byte) < 256"
  using unsigned_less [of b] by simp

lemma unat_byte_div16 [simp]: "unat (b :: byte) div 16 < 16"
  using unat_byte_less [of b] by linarith

lemma hex_decode_encode [simp, enc_simps]: "hex_decode (hex_encode bs) = Some bs"
  by (induction bs) simp_all

lemma hex_encode_inj [enc_simps]: "hex_encode xs = hex_encode ys \<longleftrightarrow> xs = ys"
  by (metis hex_decode_encode option.inject)

lemma to_lower_hex_encode [simp, enc_simps]: "to_lower (hex_encode bs) = hex_encode bs"
  by (induction bs) (simp_all add: to_lower_def)

lemma length_hex_encode [simp, enc_simps]: "length (hex_encode bs) = 2 * length bs"
  by (induction bs) simp_all

lemma equal_fold_hex_encode [enc_simps]:
  "equal_fold (hex_encode xs) (hex_encode ys) \<longleftrightarrow> xs = ys"
  by (simp add: equal_fold_def hex_encode_inj)

lemma hex_value_lower: "hex_value (lower_char c) = hex_value c"
  by (auto simp: hex_value_def lower_char_def Let_def)

lemma hex_decode_lower [simp]: "hex_decode (to_lower s) = hex_decode s"
  by (induction s rule: hex_decode.induct) (simp_all add: to_lower_def hex_value_lower)

lemma hex_value_less: "hex_value c = Some h \<Longrightarrow> h < 16"
  by (auto simp: hex_value_def Let_def split: if_splits)

lemma hex_digit_value: "hex_value c = Some h \<Longrightarrow> hex_digit h = lower_char c"
  by (auto simp: hex_value_def hex_digit_def lower_char_def Let_def split: if_splits)

lemma hex_encode_decode [enc_simps]:
  "hex_decode s = Some bs \<Longrightarrow> hex_encode bs = to_lower s"
proof (induction s arbitrary: bs rule: hex_decode.induct)
  case (3 c d s)
  then obtain h l cs where *: "hex_value c = Some h" "hex_value d = Some l"
      "hex_decode s = Some cs" "bs = word_of_nat (16 * h + l) # cs"
    by (auto split: option.splits)
  have "h < 16" "l < 16"
    using * hex_value_less by blast+
  then have "unat (word_of_nat (16 * h + l) :: byte) = 16 * h + l"
    by (simp only: unat_of_nat) simp
  with * 3 \<open>l < 16\<close> show ?case
    by (simp add: hex_digit_value to_lower_def)
qed (simp_all add: to_lower_def)

section \<open>Big-endian integers\<close>

text \<open>
  \<^verbatim>\<open>binary.BigEndian.PutUint16/32/64\<close> and \<^verbatim>\<open>AppendUint\<close>: the low \<open>n\<close> bytes of a
  number, most significant first. The conversions \<^verbatim>\<open>uint32(len(x))\<close> of the sources
  truncate, which is what dropping the high bytes does here.
\<close>

fun be_bytes :: "nat \<Rightarrow> nat \<Rightarrow> byte list" where
  "be_bytes 0 v = []"
| "be_bytes (Suc n) v = be_bytes n (v div 256) @ [word_of_nat v]"

fun be_value :: "byte list \<Rightarrow> nat" where
  "be_value [] = 0"
| "be_value (b # bs) = unat b * 256 ^ length bs + be_value bs"

lemma length_be_bytes [simp, enc_simps]: "length (be_bytes n v) = n"
  by (induction n arbitrary: v) simp_all

lemma be_value_append [simp]:
  "be_value (xs @ ys) = be_value xs * 256 ^ length ys + be_value ys"
  by (induction xs) (simp_all add: algebra_simps power_add)

lemma be_value_bytes: "be_value (be_bytes n v) = v mod 256 ^ n"
proof (induction n arbitrary: v)
  case (Suc n)
  have "unat (word_of_nat v :: byte) = v mod 256"
    by (simp add: unat_of_nat)
  with Suc show ?case
    by (simp add: mod_mult2_eq)
qed simp

lemma be_bytes_eq_iff [enc_simps]:
  "be_bytes n v = be_bytes n w \<longleftrightarrow> v mod 256 ^ n = w mod 256 ^ n"
proof
  assume "be_bytes n v = be_bytes n w"
  then show "v mod 256 ^ n = w mod 256 ^ n"
    by (metis be_value_bytes)
next
  show "v mod 256 ^ n = w mod 256 ^ n \<Longrightarrow> be_bytes n v = be_bytes n w"
  proof (induction n arbitrary: v w)
    case (Suc n)
    have split: "x mod 256 ^ Suc n = 256 * (x div 256 mod 256 ^ n) + x mod 256" for x :: nat
      by (simp add: mod_mult2_eq)
    have dm: "a = c \<and> b = d"
      if "256 * a + b = 256 * c + d" "b < 256" "d < 256" for a b c d :: nat
    proof -
      have "(256 * a + b) div 256 = (256 * c + d) div 256" "(256 * a + b) mod 256 = (256 * c + d) mod 256"
        using that(1) by simp_all
      then show ?thesis
        using that(2,3) by simp
    qed
    have "v div 256 mod 256 ^ n = w div 256 mod 256 ^ n \<and> v mod 256 = w mod 256"
      using Suc.prems unfolding split by (intro dm) simp_all
    moreover have "(word_of_nat v :: byte) = word_of_nat w" if "v mod 256 = w mod 256"
      using that by (simp add: word_of_nat_eq_iff take_bit_eq_mod)
    ultimately show ?case
      using Suc.IH [of "v div 256" "w div 256"] by simp
  qed simp
qed

definition be16 :: "u16 \<Rightarrow> byte list" where "be16 w = be_bytes 2 (unat w)"
definition be32 :: "u32 \<Rightarrow> byte list" where "be32 w = be_bytes 4 (unat w)"
definition be64 :: "i64 \<Rightarrow> byte list" where "be64 w = be_bytes 8 (unat w)"

lemma unat_mod_256:
  "unat (u :: u16) mod 65536 = unat u" "unat (w :: u32) mod 4294967296 = unat w"
  "unat (y :: i64) mod 18446744073709551616 = unat y"
  using unsigned_less [of u, where ?'a = nat] unsigned_less [of w, where ?'a = nat]
    unsigned_less [of y, where ?'a = nat]
  by simp_all

lemma unat_eq_iff: "unat v = unat w \<longleftrightarrow> v = w"
  by (auto intro: unsigned_word_eqI)

lemma sint_eq_iff: "sint v = sint w \<longleftrightarrow> v = w"
  by (auto intro: signed_word_eqI)

lemma length_be [simp, enc_simps]:
  "length (be16 v) = 2" "length (be32 w) = 4" "length (be64 x) = 8"
  by (simp_all add: be16_def be32_def be64_def)

lemma be_inj [simp, enc_simps]:
  "be16 u = be16 v \<longleftrightarrow> u = v"
  "be32 w = be32 x \<longleftrightarrow> w = x"
  "be64 y = be64 z \<longleftrightarrow> y = z"
  by (simp_all add: be16_def be32_def be64_def be_bytes_eq_iff unat_mod_256 unat_eq_iff)

section \<open>Length-prefixed fields\<close>

text \<open>
  The unit of every canonicalisation in the sources: a four-byte big-endian
  length followed by the bytes of the string.
\<close>

definition put_field :: "string \<Rightarrow> byte list" where
  "put_field s = be_bytes 4 (length s) @ str_bytes s"

abbreviation field_ok :: "string \<Rightarrow> bool" where
  "field_ok s \<equiv> length s < 2 ^ 32"

lemma put_field_append_eq [enc_simps]:
  assumes "field_ok s" "field_ok t"
  shows "put_field s @ xs = put_field t @ ys \<longleftrightarrow> s = t \<and> xs = ys"
proof
  assume eq: "put_field s @ xs = put_field t @ ys"
  then have "be_bytes 4 (length s) = be_bytes 4 (length t)"
    by (simp add: put_field_def)
  with assms have len: "length s = length t"
    by (simp add: be_bytes_eq_iff)
  with eq have "str_bytes s @ xs = str_bytes t @ ys"
    by (simp add: put_field_def)
  with len show "s = t \<and> xs = ys"
    by (simp add: str_bytes_inj)
qed simp

lemma put_field_inj [enc_simps]:
  "field_ok s \<Longrightarrow> field_ok t \<Longrightarrow> put_field s = put_field t \<longleftrightarrow> s = t"
  using put_field_append_eq [of s t "[]" "[]"] by simp

lemma length_put_field [simp, enc_simps]: "length (put_field s) = 4 + length s"
  by (simp add: put_field_def)

lemma put_field_neq_Nil [simp]: "put_field s \<noteq> []" "[] \<noteq> put_field s"
  by (auto dest!: arg_cong [where f = length])

section \<open>Decimal numerals\<close>

text \<open>The verb \<^verbatim>\<open>%d\<close> of package \<^verbatim>\<open>fmt\<close>, and zero padding.\<close>

definition dec_digit :: "nat \<Rightarrow> char" where
  "dec_digit n = char_of (48 + n)"

function dec_abs :: "int \<Rightarrow> string" where
  "dec_abs i = (if i < 10 then [dec_digit (nat i)] else dec_abs (i div 10) @ [dec_digit (nat (i mod 10))])"
  by auto
termination
  by (relation "measure nat") auto

declare dec_abs.simps [simp del]

definition dec_int :: "int \<Rightarrow> string" where
  "dec_int i = (if i < 0 then CHR ''-'' # dec_abs (- i) else dec_abs i)"

definition zero_pad :: "nat \<Rightarrow> string \<Rightarrow> string" where
  "zero_pad w s = replicate (w - length s) (CHR ''0'') @ s"

definition undec :: "string \<Rightarrow> int" where
  "undec s = foldl (\<lambda>a c. 10 * a + (of_char c - 48)) 0 s"

lemma of_char_dec_digit [simp]: "n < 10 \<Longrightarrow> of_char (dec_digit n) = (48 + of_nat n :: int)"
proof -
  assume "n < 10"
  then have "(of_char (dec_digit n) :: nat) = 48 + n"
    by (simp add: dec_digit_def)
  then show ?thesis
    by (metis of_nat_add of_nat_numeral of_nat_of_char)
qed

lemma undec_dec_abs: "0 \<le> i \<Longrightarrow> undec (dec_abs i) = i"
proof (induction i rule: dec_abs.induct)
  case (1 i)
  show ?case
  proof (cases "i < 10")
    case False
    with 1 have "undec (dec_abs (i div 10)) = i div 10" by simp
    with False show ?thesis
      by (subst dec_abs.simps) (simp add: undec_def)
  qed (use 1 in \<open>subst dec_abs.simps, simp add: undec_def\<close>)
qed

lemma dec_abs_digits: "0 \<le> i \<Longrightarrow> c \<in> set (dec_abs i) \<Longrightarrow> 48 \<le> (of_char c :: int)"
proof (induction i rule: dec_abs.induct)
  case (1 i)
  from 1(3) show ?case
    by (subst (asm) dec_abs.simps) (use 1(1,2) in \<open>auto split: if_splits\<close>)
qed

lemma dec_int_chars: "c \<in> set (dec_int i) \<Longrightarrow> c = CHR ''-'' \<or> 48 \<le> (of_char c :: int)"
  by (auto simp: dec_int_def dest: dec_abs_digits [rotated] split: if_splits)

lemma dec_abs_not_minus: "0 \<le> i \<Longrightarrow> dec_abs i \<noteq> CHR ''-'' # s"
proof
  assume "0 \<le> i" "dec_abs i = CHR ''-'' # s"
  then show False
    using dec_abs_digits [of i "CHR ''-''"] by simp
qed

lemma dec_abs_inj: "0 \<le> i \<Longrightarrow> 0 \<le> j \<Longrightarrow> dec_abs i = dec_abs j \<longleftrightarrow> i = j"
  by (metis undec_dec_abs)

lemma dec_int_inj [enc_simps]: "dec_int i = dec_int j \<longleftrightarrow> i = j"
  using dec_abs_not_minus [of i] dec_abs_not_minus [of j] dec_abs_not_minus [of j, symmetric]
  by (auto simp: dec_int_def dec_abs_inj)

section \<open>Instants\<close>

text \<open>
  A \<^verbatim>\<open>time.Time\<close> is modelled as the instant it denotes, in nanoseconds since the Unix
  epoch; the zero value is the first of January of year 1. \<^verbatim>\<open>Format(time.RFC3339Nano)\<close>
  in UTC is the proleptic Gregorian date and time with the trailing zeros of the
  fraction removed.
\<close>

type_synonym time = int

definition zero_time :: time where "zero_time = - 62135596800 * 1000000000"

definition trunc_micro :: "time \<Rightarrow> time" where "trunc_micro t = t - t mod 1000"

definition civil_date :: "int \<Rightarrow> int \<times> int \<times> int" where
  "civil_date days =
     (let z = days + 719468; era = z div 146097; doe = z mod 146097;
          yoe = (doe - doe div 1460 + doe div 36524 - doe div 146096) div 365;
          doy = doe - (365 * yoe + yoe div 4 - yoe div 100);
          mp = (5 * doy + 2) div 153;
          d = doy - (153 * mp + 2) div 5 + 1;
          m = (if mp < 10 then mp + 3 else mp - 9)
      in (yoe + era * 400 + (if m \<le> 2 then 1 else 0), m, d))"

definition fraction_text :: "int \<Rightarrow> string" where
  "fraction_text ns =
     (if ns = 0 then []
      else CHR ''.'' # rev (dropWhile (\<lambda>c. c = CHR ''0'') (rev (zero_pad 9 (dec_int ns)))))"

definition rfc3339nano :: "time \<Rightarrow> string" where
  "rfc3339nano t =
     (let secs = t div 1000000000; ns = t mod 1000000000;
          (y, m, d) = civil_date (secs div 86400); sod = secs mod 86400;
          two = (\<lambda>i. zero_pad 2 (dec_int i))
      in zero_pad 4 (dec_int y) @ ''-'' @ two m @ ''-'' @ two d @ ''T'' @
         two (sod div 3600) @ '':'' @ two (sod mod 3600 div 60) @ '':'' @ two (sod mod 60) @
         fraction_text ns @ ''Z'')"

section \<open>Binary search\<close>

text \<open>\<^verbatim>\<open>sort.Search(n, f)\<close>: the smallest index for which a monotone test holds, or \<open>n\<close>.\<close>

function search_between :: "(nat \<Rightarrow> bool) \<Rightarrow> nat \<Rightarrow> nat \<Rightarrow> nat" where
  "search_between f i j =
     (if i < j then
        let h = (i + j) div 2 in
        if \<not> f h then search_between f (h + 1) j else search_between f i h
      else i)"
  by auto
termination
  by (relation "measure (\<lambda>(f, i, j). j - i)") auto

declare search_between.simps [simp del]

definition sort_search :: "nat \<Rightarrow> (nat \<Rightarrow> bool) \<Rightarrow> nat" where
  "sort_search n f = search_between f 0 n"

lemma search_between_spec:
  assumes mono: "\<And>a b. a \<le> b \<Longrightarrow> b < n \<Longrightarrow> f a \<Longrightarrow> f b"
    and "i \<le> j" "j \<le> n" "\<And>k. k < i \<Longrightarrow> \<not> f k" "\<And>k. j \<le> k \<Longrightarrow> k < n \<Longrightarrow> f k"
    and r: "r = search_between f i j"
  shows "r \<le> n \<and> (\<forall>k. k < r \<longrightarrow> \<not> f k) \<and> (\<forall>k. r \<le> k \<and> k < n \<longrightarrow> f k)"
  using assms(2-)
proof (induction "j - i" arbitrary: i j rule: less_induct)
  case less
  show ?case
  proof (cases "i < j")
    case True
    define h where "h = (i + j) div 2"
    have h: "i \<le> h" "h < j" "h < n"
      using True less.prems(2) by (auto simp: h_def)
    show ?thesis
    proof (cases "f h")
      case fh: True
      have "r = search_between f i h"
        using less.prems(5) True fh by (subst (asm) search_between.simps) (simp add: h_def)
      then show ?thesis
        using h less.prems fh mono by (intro less.hyps [of h i]) auto
    next
      case fh: False
      have "r = search_between f (h + 1) j"
        using less.prems(5) True fh by (subst (asm) search_between.simps) (simp add: h_def)
      moreover have "\<not> f k" if "k < h + 1" for k
        using mono [of k h] that fh h(3) by auto
      ultimately show ?thesis
        using h less.prems by (intro less.hyps [of j "h + 1"]) auto
    qed
  next
    case False
    then have "r = i"
      using less.prems(5) by (subst (asm) search_between.simps) simp
    with False less.prems show ?thesis
      by auto
  qed
qed

lemma sort_search_spec:
  assumes "\<And>a b. a \<le> b \<Longrightarrow> b < n \<Longrightarrow> f a \<Longrightarrow> f b"
  shows "sort_search n f \<le> n \<and> (\<forall>k. k < sort_search n f \<longrightarrow> \<not> f k) \<and>
    (\<forall>k. sort_search n f \<le> k \<and> k < n \<longrightarrow> f k)"
  unfolding sort_search_def by (rule search_between_spec [OF assms]) auto

lemma sort_search_eqI:
  assumes mono: "\<And>a b. a \<le> b \<Longrightarrow> b < n \<Longrightarrow> f a \<Longrightarrow> f b"
    and "m < n" "f m" "\<And>k. k < m \<Longrightarrow> \<not> f k"
  shows "sort_search n f = m"
proof -
  have spec: "sort_search n f \<le> n \<and> (\<forall>k. k < sort_search n f \<longrightarrow> \<not> f k) \<and>
      (\<forall>k. sort_search n f \<le> k \<and> k < n \<longrightarrow> f k)"
    by (rule sort_search_spec) (rule mono)
  have "\<not> m < sort_search n f"
    using spec assms(3) by blast
  moreover have "\<not> sort_search n f < m"
    using spec assms(2,4) order_less_trans by blast
  ultimately show ?thesis
    by simp
qed

section \<open>Positions\<close>

lemma all_less_conj: "(\<forall>i<n. P i \<and> Q i) \<longleftrightarrow> (\<forall>i<n. P i) \<and> (\<forall>i<(n :: nat). Q i)"
  by blast

section \<open>Evaluation\<close>

lemma replicate_numeral: "replicate (numeral k) x = x # replicate (pred_numeral k) x"
  by (simp add: numeral_eq_Suc)

section \<open>Shared names\<close>

text \<open>The built-in tenant (\<^verbatim>\<open>server/internal/models/models.go\<close>), named by several components.\<close>

definition DefaultTenantID :: string where "DefaultTenantID = ''default''"

end
