(* ===== verification/Shamir.thy ===== *)
theory Shamir
  imports Secsy_Prelude
begin

text \<open>
  Threshold secret sharing, \<^verbatim>\<open>server/internal/secret/shamir.go\<close>: the arithmetic of
  GF(2^8) with its exp/log tables, splitting a secret into shares and combining
  shares by Lagrange interpolation at zero.

  The byte operations of the code are shown to be a field by instantiating the
  library's type class on a copy of the bytes; interpolation is proved once over an
  arbitrary field and applied there. On top of it: any quorum reconstructs the
  secret, fewer shares are consistent with every secret, the results of split,
  combine and parse on every branch.
\<close>

section \<open>The field GF(2^8)\<close>

definition xtime :: "byte \<Rightarrow> byte" where
  "xtime a = (let hi = a AND 0x80; a' = push_bit 1 a in if hi \<noteq> 0 then a' XOR 0x1b else a')"

fun gfMulLoop :: "nat \<Rightarrow> byte \<Rightarrow> byte \<Rightarrow> byte \<Rightarrow> byte" where
  "gfMulLoop 0 a b p = p"
| "gfMulLoop (Suc n) a b p =
     gfMulLoop n (xtime a) (drop_bit 1 b) (if b AND 1 \<noteq> 0 then p XOR a else p)"

definition gfMul :: "byte \<Rightarrow> byte \<Rightarrow> byte" where
  "gfMul a b = gfMulLoop 8 a b 0"

fun gfTables :: "nat \<Rightarrow> byte \<times> byte list \<times> byte list" where
  "gfTables 0 = (1, replicate 256 0, replicate 256 0)"
| "gfTables (Suc i) =
     (case gfTables i of (x, e, l) \<Rightarrow>
        (gfMul x 0x03, e[i := x], l[unat x := word_of_nat i]))"

definition gfExp :: "byte list" where
  "gfExp = (case gfTables 255 of (x, e, l) \<Rightarrow> e[255 := e ! 0])"

definition gfLog :: "byte list" where
  "gfLog = (case gfTables 255 of (x, e, l) \<Rightarrow> l)"

definition gfInv :: "byte \<Rightarrow> byte" where
  "gfInv a = (if a = 0 then 0 else gfExp ! (255 - unat (gfLog ! unat a)))"

definition gfDiv :: "byte \<Rightarrow> byte \<Rightarrow> byte" where
  "gfDiv a b = (if a = 0 then 0 else gfMul a (gfInv b))"

subsection \<open>Ring laws of the shift-and-add product\<close>

lemma gfMulLoop_numeral [simp]:
  "gfMulLoop (numeral k) a b p =
     gfMulLoop (pred_numeral k) (xtime a) (drop_bit 1 b) (if b AND 1 \<noteq> 0 then p XOR a else p)"
  by (simp add: numeral_eq_Suc)

lemma byte_top_bit: "(a :: byte) AND 0x80 \<noteq> 0 \<longleftrightarrow> bit a 7"
  using and_exp_eq_0_iff_not_bit [of a 7] by simp

lemma byte_low_bit: "(b :: byte) AND 1 \<noteq> 0 \<longleftrightarrow> odd b"
  by (simp add: and_one_eq odd_iff_mod_2_eq_one)

lemma xor_left_commute: "x XOR (y XOR z) = y XOR (x XOR z)" for x y z :: byte
  by (simp add: ac_simps)

lemma xor_cancel_left [simp]: "x XOR (x XOR y) = y" for x y :: byte
  by (simp flip: xor.assoc)

lemmas xor_ac = xor.assoc xor.commute xor_left_commute

lemma xtime_xor: "xtime (a XOR b) = xtime a XOR xtime b"
  by (auto simp: xtime_def Let_def byte_top_bit bit_simps push_bit_xor xor_ac)

lemma gfMulLoop_xor_left:
  "gfMulLoop n (a XOR c) b (p XOR q) = gfMulLoop n a b p XOR gfMulLoop n c b q"
proof (induction n a b p arbitrary: c q rule: gfMulLoop.induct)
  case (2 n a b p)
  have "(if b AND 1 \<noteq> 0 then (p XOR q) XOR (a XOR c) else p XOR q) =
      (if b AND 1 \<noteq> 0 then p XOR a else p) XOR (if b AND 1 \<noteq> 0 then q XOR c else q)"
    by (simp add: xor_ac)
  with 2 show ?case
    by (simp only: gfMulLoop.simps xtime_xor)
qed simp

lemma gfMulLoop_xor_right:
  "gfMulLoop n a (b XOR d) (p XOR q) = gfMulLoop n a b p XOR gfMulLoop n a d q"
proof (induction n a b p arbitrary: d q rule: gfMulLoop.induct)
  case (2 n a b p)
  have "(if (b XOR d) AND 1 \<noteq> 0 then (p XOR q) XOR a else p XOR q) =
      (if b AND 1 \<noteq> 0 then p XOR a else p) XOR (if d AND 1 \<noteq> 0 then q XOR a else q)"
    unfolding byte_low_bit by (auto simp: xor_ac even_xor_iff)
  with 2 show ?case
    by (simp only: gfMulLoop.simps drop_bit_xor)
qed simp

lemma gfMulLoop_xtime: "gfMulLoop n (xtime a) b (xtime p) = xtime (gfMulLoop n a b p)"
proof (induction n a b p rule: gfMulLoop.induct)
  case (2 n a b p)
  have "(if b AND 1 \<noteq> 0 then xtime p XOR xtime a else xtime p) =
      xtime (if b AND 1 \<noteq> 0 then p XOR a else p)"
    by (simp add: xtime_xor)
  with 2 show ?case
    by (simp only: gfMulLoop.simps)
qed simp

lemma gfMul_xor_left: "gfMul (a XOR c) b = gfMul a b XOR gfMul c b"
  using gfMulLoop_xor_left [of 8 a c b 0 0] by (simp only: gfMul_def xor_self_eq)

lemma gfMul_xor_right: "gfMul a (b XOR d) = gfMul a b XOR gfMul a d"
  using gfMulLoop_xor_right [of 8 a b d 0 0] by (simp only: gfMul_def xor_self_eq)

lemma gfMul_xtime: "gfMul (xtime a) b = xtime (gfMul a b)"
  using gfMulLoop_xtime [of 8 a b 0] by (simp add: gfMul_def xtime_def del: gfMulLoop_numeral)

lemma gfMul_xtime_pow: "gfMul ((xtime ^^ k) a) b = (xtime ^^ k) (gfMul a b)"
  by (induction k) (simp_all add: gfMul_xtime)

text \<open>Two additive maps on bytes that agree on the eight powers of two are equal.\<close>

lemma additive_ext:
  fixes f g :: "byte \<Rightarrow> byte"
  assumes add: "\<And>x y. f (x XOR y) = f x XOR f y" "\<And>x y. g (x XOR y) = g x XOR g y"
    and basis: "\<And>i. i < 8 \<Longrightarrow> f (2 ^ i) = g (2 ^ i)"
  shows "f x = g x"
proof -
  have zero: "f 0 = 0" "g 0 = 0"
    using add(1) [of 0 0] add(2) [of 0 0] by simp_all
  have "f (take_bit k x) = g (take_bit k x)" if "k \<le> 8" for k
    using that
  proof (induction k)
    case (Suc k)
    have "take_bit (Suc k) x = take_bit k x XOR (if bit x k then 2 ^ k else 0)"
      by (rule bit_eqI) (auto simp: bit_simps less_Suc_eq)
    with Suc basis [of k] show ?case
      by (simp add: add zero)
  qed (simp add: zero)
  from this [of 8] show ?thesis
    by (simp add: take_bit_word_eq_self)
qed

lemma less_8_cases: "i < 8 \<Longrightarrow> i \<in> {0, 1, 2, 3, 4, 5, 6, 7 :: nat}"
  by (simp only: insert_iff empty_iff) presburger

lemma gfMul_pow2: "i < 8 \<Longrightarrow> gfMul a (2 ^ i) = (xtime ^^ i) a"
  by (drule less_8_cases) (elim insertE emptyE; simp add: gfMul_def; simp add: numeral_eq_Suc)

lemma gfMul_one_left [simp]: "gfMul 1 a = a"
proof (rule additive_ext [of "gfMul 1" "\<lambda>a. a"])
  show "gfMul 1 (2 ^ i) = 2 ^ i" if "i < 8" for i
    using less_8_cases [OF that] by (elim insertE) (simp_all add: gfMul_def xtime_def)
qed (simp_all add: gfMul_xor_right)

lemma gfMul_commute: "gfMul a b = gfMul b a"
proof (rule additive_ext [of "gfMul a" "\<lambda>b. gfMul b a"])
  show "gfMul a (2 ^ i) = gfMul (2 ^ i) a" if "i < 8" for i
    using gfMul_pow2 [OF that, of a] gfMul_pow2 [OF that, of 1] gfMul_xtime_pow [of i 1 a]
    by simp
qed (simp_all add: gfMul_xor_left gfMul_xor_right)

lemma gfMul_assoc: "gfMul (gfMul a b) c = gfMul a (gfMul b c)"
proof (rule additive_ext [of "gfMul (gfMul a b)" "\<lambda>c. gfMul a (gfMul b c)"])
  show "gfMul (gfMul a b) (2 ^ i) = gfMul a (gfMul b (2 ^ i))" if "i < 8" for i
    using gfMul_pow2 [OF that] gfMul_xtime_pow [of i b a]
    by (simp add: gfMul_commute)
qed (simp_all add: gfMul_xor_right)

subsection \<open>The field as a type\<close>

typedef gf256 = "UNIV :: byte set" morphisms gf_byte gf_of ..

setup_lifting type_definition_gf256

instantiation gf256 :: comm_ring_1
begin

lift_definition zero_gf256 :: gf256 is "0 :: byte" .
lift_definition one_gf256 :: gf256 is "1 :: byte" .
lift_definition plus_gf256 :: "gf256 \<Rightarrow> gf256 \<Rightarrow> gf256" is "\<lambda>a b. a XOR b" .
lift_definition minus_gf256 :: "gf256 \<Rightarrow> gf256 \<Rightarrow> gf256" is "\<lambda>a b. a XOR b" .
lift_definition uminus_gf256 :: "gf256 \<Rightarrow> gf256" is "\<lambda>a. a" .
lift_definition times_gf256 :: "gf256 \<Rightarrow> gf256 \<Rightarrow> gf256" is gfMul .

instance
proof
  fix a b c :: gf256
  show "a * b * c = a * (b * c)" by transfer (rule gfMul_assoc)
  show "a * b = b * a" by transfer (rule gfMul_commute)
  show "1 * a = a" by transfer (rule gfMul_one_left)
  show "a + b + c = a + (b + c)" by transfer (rule xor.assoc)
  show "a + b = b + a" by transfer (rule xor.commute)
  show "(a + b) * c = a * c + b * c" by transfer (rule gfMul_xor_left)
  show "0 + a = a" "- a + a = 0" "a - b = a + - b" by (transfer, simp)+
  show "(0 :: gf256) \<noteq> 1" by transfer simp
qed

end

lemmas gf_byte_simps [simp] =
  zero_gf256.rep_eq one_gf256.rep_eq plus_gf256.rep_eq minus_gf256.rep_eq
  uminus_gf256.rep_eq times_gf256.rep_eq

lemma gf_of_simps [simp]:
  "gf_byte (gf_of a) = a" "gf_of (gf_byte x) = x"
  by (simp_all add: gf_of_inverse gf_byte_inverse)

lemma gf_eq_iff: "x = y \<longleftrightarrow> gf_byte x = gf_byte y"
  by (simp add: gf_byte_inject)

text \<open>The table generator 0x03 has order 255 = 3 * 5 * 17.\<close>

abbreviation gen :: gf256 where "gen \<equiv> gf_of 0x03"

lemma power_gcd_one:
  fixes g :: "'a :: comm_ring_1"
  shows "g ^ a = 1 \<Longrightarrow> g ^ b = 1 \<Longrightarrow> g ^ gcd a b = 1"
proof (induction a b rule: gcd_nat_induct)
  case (step m n)
  have "g ^ m = (g ^ n) ^ (m div n) * g ^ (m mod n)"
    by (simp flip: power_mult power_add)
  with step have "g ^ (m mod n) = 1"
    by simp
  with step show ?case
    by (simp add: gcd_non_0_nat)
qed simp

lemma gf_power_add:
  "x ^ i = gf_of a \<Longrightarrow> x ^ j = gf_of b \<Longrightarrow> gfMul a b = c \<Longrightarrow> i + j = k \<Longrightarrow> x ^ k = gf_of c"
  by (auto simp: power_add gf_eq_iff)

lemma gen_order:
  "gen ^ 15 \<noteq> 1" "gen ^ 51 \<noteq> 1" "gen ^ 85 \<noteq> 1" "gen ^ 255 = 1"
proof -
  note eval = gfMul_def xtime_def
  have p1: "gen ^ 1 = gf_of 0x03" by simp
  have p2: "gen ^ 2 = gf_of 0x5"
    by (rule gf_power_add [OF p1 p1]) (simp_all add: eval)
  have p4: "gen ^ 4 = gf_of 0x11"
    by (rule gf_power_add [OF p2 p2]) (simp_all add: eval)
  have p5: "gen ^ 5 = gf_of 0x33"
    by (rule gf_power_add [OF p4 p1]) (simp_all add: eval)
  have p10: "gen ^ 10 = gf_of 0x72"
    by (rule gf_power_add [OF p5 p5]) (simp_all add: eval)
  have p15: "gen ^ 15 = gf_of 0x35"
    by (rule gf_power_add [OF p10 p5]) (simp_all add: eval)
  have p17: "gen ^ 17 = gf_of 0xe1"
    by (rule gf_power_add [OF p15 p2]) (simp_all add: eval)
  have p34: "gen ^ 34 = gf_of 0x5c"
    by (rule gf_power_add [OF p17 p17]) (simp_all add: eval)
  have p51: "gen ^ 51 = gf_of 0xc"
    by (rule gf_power_add [OF p34 p17]) (simp_all add: eval)
  have p85: "gen ^ 85 = gf_of 0xbd"
    by (rule gf_power_add [OF p51 p34]) (simp_all add: eval)
  have p170: "gen ^ 170 = gf_of 0xbc"
    by (rule gf_power_add [OF p85 p85]) (simp_all add: eval)
  have p255: "gen ^ 255 = gf_of 0x1"
    by (rule gf_power_add [OF p170 p85]) (simp_all add: eval)
  show "gen ^ 15 \<noteq> 1" "gen ^ 51 \<noteq> 1" "gen ^ 85 \<noteq> 1" "gen ^ 255 = 1"
    unfolding p15 p51 p85 p255 by (simp_all add: gf_eq_iff)
qed

lemma le_15_cases:
  assumes "n \<le> 15" "n dvd 255"
  shows "n = 1 \<or> n = 3 \<or> n = 5 \<or> n = (15 :: nat)"
proof -
  have "n \<in> {0, 1, 2, 3, 4, 5, 6, 7, 8, 9, 10, 11, 12, 13, 14, 15}"
    using assms(1) by (simp only: insert_iff empty_iff) presburger
  then show ?thesis
    using assms(2) by (elim insertE) simp_all
qed

lemma dvd_255:
  assumes "k dvd 255" "k \<noteq> 255"
  shows "k dvd 85 \<or> k dvd 51 \<or> k dvd (15 :: nat)"
proof -
  from assms(1) obtain m where m: "255 = k * m" ..
  have "k \<le> 15 \<or> m \<le> 15"
    using mult_le_mono [of 16 k 16 m] m by linarith
  then have "(k = 1 \<or> k = 3 \<or> k = 5 \<or> k = 15) \<or> (m = 1 \<or> m = 3 \<or> m = 5 \<or> m = 15)"
    using le_15_cases m assms(1) by (metis dvd_triv_right)
  then show ?thesis
  proof (elim disjE)
    assume "m = 3" with m have "k = 85" by simp then show ?thesis by simp
  next
    assume "m = 5" with m have "k = 51" by simp then show ?thesis by simp
  next
    assume "m = 15" with m have "k = 17" by simp then show ?thesis by simp
  qed (use m assms(2) in simp_all)
qed

lemma gen_power_neq_1:
  assumes "0 < d" "d < 255"
  shows "gen ^ d \<noteq> 1"
proof
  assume "gen ^ d = 1"
  then have one: "gen ^ gcd d 255 = 1"
    using gen_order(4) by (rule power_gcd_one)
  have "gcd d 255 \<le> d"
    using assms(1) by (intro dvd_imp_le) simp_all
  then have "gcd d 255 dvd 85 \<or> gcd d 255 dvd 51 \<or> gcd d 255 dvd 15"
    using assms(2) by (intro dvd_255) simp_all
  then show False
    using one gen_order(1-3) by (auto elim!: dvdE simp: power_mult)
qed

lemma gen_power_inj:
  assumes "gen ^ i = gen ^ j" "i < 255" "j < 255"
  shows "i = j"
proof -
  have less: "\<not> i < j" if "gen ^ i = gen ^ j" "j < 255" for i j
  proof
    assume "i < j"
    have "gen ^ (j - i) = gen ^ (255 - i) * gen ^ j"
      using \<open>i < j\<close> that(2) gen_order(4) power_add [of gen 255 "j - i"]
      by (simp flip: power_add)
    also have "\<dots> = gen ^ 255"
      using that \<open>i < j\<close> by (simp flip: that(1) power_add)
    finally have "gen ^ (j - i) = 1"
      by (simp only: gen_order(4))
    then show False
      using gen_power_neq_1 [of "j - i"] \<open>i < j\<close> that(2) by simp
  qed
  show ?thesis
    using less [of i j] less [of j i] assms by (cases i j rule: linorder_cases) simp_all
qed

lemma gen_power_neq_0: "i \<le> 255 \<Longrightarrow> gen ^ i \<noteq> 0"
  using gen_order(4) power_add [of gen i "255 - i"] by auto

lemma card_gf256: "card (UNIV :: gf256 set) = 256"
  using type_definition.card [OF type_definition_gf256] by (simp add: card_word)

lemma finite_gf256: "finite (UNIV :: gf256 set)"
  using card_gf256 by (rule_tac ccontr) simp

text \<open>Every non-zero element is a power of the generator.\<close>

lemma gen_surj:
  assumes "x \<noteq> 0"
  obtains i where "i < 255" "x = gen ^ i"
proof -
  note fin = finite_gf256 and card = card_gf256
  have "inj_on (\<lambda>i. gen ^ i) {..<255}"
    by (rule inj_onI) (simp add: gen_power_inj)
  then have "card ((\<lambda>i. gen ^ i) ` {..<255}) = card (UNIV - {0 :: gf256})"
    using fin card by (simp add: card_image)
  moreover have "(\<lambda>i. gen ^ i) ` {..<255} \<subseteq> UNIV - {0}"
    using gen_power_neq_0 by auto
  ultimately have "(\<lambda>i. gen ^ i) ` {..<255} = UNIV - {0}"
    using fin by (intro card_subset_eq) simp_all
  with assms that show ?thesis
    by blast
qed

text \<open>What the initialisation loop leaves in the two tables.\<close>

lemma gfTables_inv:
  assumes "n \<le> 255" "gfTables n = (x, e, l)"
  shows "x = gf_byte (gen ^ n) \<and> length e = 256 \<and> length l = 256 \<and>
    (\<forall>i<n. e ! i = gf_byte (gen ^ i) \<and> l ! unat (gf_byte (gen ^ i)) = word_of_nat i)"
  using assms
proof (induction n arbitrary: x e l)
  case (Suc n)
  obtain x' e' l' where prev: "gfTables n = (x', e', l')"
    by (cases "gfTables n")
  note IH = Suc.IH [OF _ prev]
  have eqs: "x = gfMul x' 3" "e = e'[n := x']" "l = l'[unat x' := word_of_nat n]"
    using Suc.prems(2) prev by simp_all
  have neq: "unat (gf_byte (gen ^ i)) \<noteq> unat (gf_byte (gen ^ n))" if "i < n" for i
    using that Suc.prems(1) gen_power_inj [of i n] by (auto simp: unat_eq_iff simp flip: gf_eq_iff)
  show ?case
    using IH Suc.prems(1) neq neq [symmetric] unfolding eqs
    by (auto simp: less_Suc_eq gfMul_commute nth_list_update)
qed auto

lemma gfExp_nth: "i \<le> 255 \<Longrightarrow> gfExp ! i = gf_byte (gen ^ i)"
  using gfTables_inv [of 255] gen_order(4)
  by (cases "gfTables 255") (auto simp: gfExp_def nth_list_update le_less)

lemma gfLog_nth: "i < 255 \<Longrightarrow> gfLog ! unat (gf_byte (gen ^ i)) = word_of_nat i"
  using gfTables_inv [of 255] by (cases "gfTables 255") (auto simp: gfLog_def)

theorem gfInv_right:
  assumes "a \<noteq> 0"
  shows "gfMul a (gfInv a) = 1"
proof -
  obtain i where i: "i < 255" "gf_of a = gen ^ i"
    using gen_surj [of "gf_of a"] assms by (auto simp: gf_eq_iff)
  then have a: "a = gf_byte (gen ^ i)"
    by (metis gf_of_simps(1))
  have "gfInv a = gf_byte (gen ^ (255 - i))"
    using i assms by (simp add: gfInv_def a gfLog_nth gfExp_nth unat_of_nat)
  then have "gfMul a (gfInv a) = gf_byte (gen ^ (i + (255 - i)))"
    by (simp add: a power_add)
  also have "\<dots> = 1"
    using i gen_order(4) by simp
  finally show ?thesis .
qed

instantiation gf256 :: field
begin

lift_definition inverse_gf256 :: "gf256 \<Rightarrow> gf256" is gfInv .
lift_definition divide_gf256 :: "gf256 \<Rightarrow> gf256 \<Rightarrow> gf256" is gfDiv .

instance
proof
  fix a b :: gf256
  show "a \<noteq> 0 \<Longrightarrow> inverse a * a = 1"
    by transfer (metis gfInv_right gfMul_commute)
  have "gfMul 0 x = 0" for x
    using gfMul_xor_left [of 0 0 x] by simp
  then show "a div b = a * inverse b"
    by transfer (simp add: gfDiv_def)
  show "inverse (0 :: gf256) = 0"
    by transfer (simp add: gfInv_def)
qed

end

lemmas gf_byte_division [simp] = inverse_gf256.rep_eq divide_gf256.rep_eq

text \<open>Reading a byte as a field element commutes with the operations of the code.\<close>

lemma gf_of_hom:
  "gf_of (gfMul a b) = gf_of a * gf_of b" "gf_of (gfDiv a b) = gf_of a / gf_of b"
  "gf_of (a XOR b) = gf_of a + gf_of b" "gf_of 0 = 0" "gf_of 1 = 1"
  by (simp_all add: gf_eq_iff)

lemma gf_minus: "x - y = x + y" for x y :: gf256
  by (simp add: gf_eq_iff)

section \<open>Polynomials and interpolation over a field\<close>

fun peval :: "'a :: comm_ring_1 list \<Rightarrow> 'a \<Rightarrow> 'a" where
  "peval [] x = 0"
| "peval (c # cs) x = c + x * peval cs x"

lemma peval_divide:
  fixes a :: "'a :: comm_ring_1"
  shows "\<exists>ds. length ds = length cs - 1 \<and> (\<forall>x. peval cs x = (x - a) * peval ds x + peval cs a)"
proof (induction cs)
  case (Cons c cs)
  then obtain ds where ds: "length ds = length cs - 1"
      "\<And>x. peval cs x = (x - a) * peval ds x + peval cs a"
    by blast
  show ?case
  proof (cases "cs = []")
    case False
    have "peval (c # cs) x = (x - a) * peval (peval cs a # ds) x + peval (c # cs) a" for x
      by (simp add: ds(2) [of x]) (simp add: algebra_simps)
    moreover have "length (peval cs a # ds) = length (c # cs) - 1"
      using ds(1) False by (cases cs) simp_all
    ultimately show ?thesis
      by blast
  qed simp
qed simp

text \<open>A polynomial with as many roots as coefficients vanishes everywhere.\<close>

lemma peval_roots:
  fixes xs :: "'a :: field list"
  shows "distinct xs \<Longrightarrow> length cs \<le> length xs \<Longrightarrow> \<forall>x\<in>set xs. peval cs x = 0 \<Longrightarrow> peval cs y = 0"
proof (induction xs arbitrary: cs)
  case (Cons a xs)
  obtain ds where ds: "length ds = length cs - 1"
      "\<And>x. peval cs x = (x - a) * peval ds x + peval cs a"
    using peval_divide by blast
  have "\<forall>x\<in>set xs. peval ds x = 0"
    using ds(2) Cons.prems by (metis add.right_neutral distinct.simps(2) eq_iff_diff_eq_0
        list.set_intros mult_eq_0_iff)
  then have "peval ds y = 0"
    using Cons ds(1) by simp
  then show ?case
    using ds(2) [of y] Cons.prems(3) by simp
qed simp

lemma peval_roots_coeffs:
  fixes xs :: "'a :: field list"
  assumes "distinct xs" "0 \<notin> set xs"
  shows "length cs \<le> length xs \<Longrightarrow> \<forall>x\<in>set xs. peval cs x = 0 \<Longrightarrow> \<forall>c\<in>set cs. c = 0"
proof (induction cs)
  case (Cons c cs)
  have "peval (c # cs) 0 = 0"
    using Cons.prems by (intro peval_roots [OF assms(1)])
  then have "c = 0"
    by simp
  with Cons.prems assms(2) have "\<forall>x\<in>set xs. peval cs x = 0"
    by auto
  with Cons \<open>c = 0\<close> show ?case
    by simp
qed simp

text \<open>
  The Lagrange basis at zero for the nodes \<open>x i\<close>, \<open>i \<in> I\<close>, and the interpolation
  theorem: the weighted sum of the values of a polynomial with at most \<open>card I\<close>
  coefficients is its value at zero.
\<close>

definition lag :: "('i \<Rightarrow> 'a :: field) \<Rightarrow> 'i set \<Rightarrow> 'i \<Rightarrow> 'a" where
  "lag x I i = (\<Prod>j\<in>I - {i}. x j / (x j - x i))"

lemma lag_insert:
  assumes "finite I" "z \<notin> I" "i \<in> I"
  shows "lag x (insert z I) i = x z / (x z - x i) * lag x I i"
proof -
  have "insert z I - {i} = insert z (I - {i})" "z \<notin> I - {i}"
    using assms by auto
  then show ?thesis
    using assms by (simp add: lag_def)
qed

lemma lag_shift:
  fixes x :: "'i \<Rightarrow> 'a :: field"
  assumes "finite I" "z \<notin> I" "inj_on x (insert z I)"
  shows "(\<Sum>i\<in>insert z I. (x i - x z) * f i * lag x (insert z I) i) = - x z * (\<Sum>i\<in>I. f i * lag x I i)"
proof -
  have "(x i - x z) * f i * lag x (insert z I) i = - x z * (f i * lag x I i)" if "i \<in> I" for i
  proof -
    have "x z - x i \<noteq> 0"
      using assms that by (auto simp: inj_on_def)
    then have "(x i - x z) * (x z / (x z - x i)) = - x z"
      by (simp add: field_simps)
    then have "((x i - x z) * (x z / (x z - x i))) * (f i * lag x I i) = - x z * (f i * lag x I i)"
      by (simp only:)
    then show ?thesis
      unfolding lag_insert [OF assms(1,2) that] by (simp only: ac_simps)
  qed
  then show ?thesis
    using assms by (simp add: sum_distrib_left sum_negf flip: sum_negf)
qed

lemma lag_sum_one:
  fixes x :: "'i \<Rightarrow> 'a :: field"
  assumes "finite I" "I \<noteq> {}" "inj_on x I"
  shows "(\<Sum>i\<in>I. lag x I i) = 1"
  using assms
proof (induction "card I" arbitrary: I rule: less_induct)
  case less
  let ?s = "\<Sum>i\<in>I. lag x I i"
  have step: "(\<Sum>i\<in>I. x i * lag x I i) = x z * (?s - 1)" if "z \<in> I" "I \<noteq> {z}" for z
  proof -
    define J where "J = I - {z}"
    have J: "I = insert z J" "z \<notin> J" "finite J" "J \<noteq> {}"
      using that less.prems by (auto simp: J_def)
    have "(\<Sum>i\<in>J. lag x J i) = 1"
      using less.hyps [of J] less.prems J by (auto simp: inj_on_def)
    then have "(\<Sum>i\<in>I. (x i - x z) * lag x I i) = - x z"
      using lag_shift [of J z x "\<lambda>_. 1"] J less.prems by simp
    then show ?thesis
      by (simp add: algebra_simps sum_subtractf sum_distrib_left)
  qed
  show ?case
  proof (cases "\<exists>z. I = {z}")
    case False
    then obtain z w where zw: "z \<in> I" "w \<in> I" "z \<noteq> w"
      using less.prems(2) by blast
    then have "x z * (?s - 1) = x w * (?s - 1)"
      using False by (intro trans [OF step [symmetric] step]) auto
    moreover have "x z \<noteq> x w"
      using zw less.prems(3) by (auto simp: inj_on_def)
    ultimately show ?thesis
      by simp
  qed (auto simp: lag_def)
qed

theorem lagrange_at_zero:
  fixes x :: "'i \<Rightarrow> 'a :: field"
  assumes "finite I" "I \<noteq> {}" "inj_on x I" "length cs \<le> card I"
  shows "(\<Sum>i\<in>I. peval cs (x i) * lag x I i) = peval cs 0"
  using assms
proof (induction I arbitrary: cs rule: finite_induct)
  case (insert z I)
  obtain ds where ds: "length ds = length cs - 1"
      "\<And>y. peval cs y = (y - x z) * peval ds y + peval cs (x z)"
    using peval_divide by blast
  have rest: "(\<Sum>i\<in>I. peval ds (x i) * lag x I i) = peval ds 0"
  proof (cases "I = {}")
    case True
    with insert.prems ds(1) have "ds = []" by simp
    with True show ?thesis by simp
  next
    case False
    with insert ds(1) show ?thesis
      by (intro insert.IH) (auto simp: inj_on_def)
  qed
  have "(\<Sum>i\<in>insert z I. peval cs (x i) * lag x (insert z I) i) =
      (\<Sum>i\<in>insert z I. (x i - x z) * peval ds (x i) * lag x (insert z I) i) +
      peval cs (x z) * (\<Sum>i\<in>insert z I. lag x (insert z I) i)"
    unfolding sum_distrib_left sum.distrib [symmetric]
    by (intro sum.cong refl) (subst ds(2), simp add: algebra_simps)
  also have "\<dots> = - x z * peval ds 0 + peval cs (x z)"
    using insert.hyps insert.prems lag_shift [of I z x "\<lambda>i. peval ds (x i)"] rest
      lag_sum_one [of "insert z I" x] by simp
  also have "\<dots> = peval cs 0"
    using ds(2) [of 0] by simp
  finally show ?case .
qed simp

section \<open>Shares\<close>

datatype shamir_error =
    errShareMalformed | errShareZeroX | errThresholdTooLow | errPartsBelowThreshold
  | errTooManyParts | errEmptySecret | errTooFewShares | errShareLengthMismatch
  | errShareDuplicateX | errRandRead

record shamirShare =
  share_X :: byte
  share_Y :: "byte list"

definition shamirShare_bytes :: "shamirShare \<Rightarrow> byte list" where
  "shamirShare_bytes s = share_X s # share_Y s"

definition parseShamirShare :: "byte list \<Rightarrow> (shamir_error, shamirShare) result" where
  "parseShamirShare b =
     (if length b < 2 then Inl errShareMalformed
      else if b ! 0 = 0 then Inl errShareZeroX
      else Inr \<lparr>share_X = b ! 0, share_Y = drop 1 b\<rparr>)"

definition gfEval :: "byte list \<Rightarrow> byte \<Rightarrow> byte" where
  "gfEval coeffs x =
     foldl (\<lambda>out i. gfMul out x XOR coeffs ! i) 0 (rev [0..<length coeffs])"

text \<open>
  \<^verbatim>\<open>randRead\<close> is an argument of the split: it turns the state of the random source
  and the slice to fill into the new state and the filled slice, or fails. A slice
  keeps its length.
\<close>

type_synonym 'r rand_read = "'r \<Rightarrow> byte list \<Rightarrow> ('r \<times> byte list) option"

definition fills :: "'r rand_read \<Rightarrow> bool" where
  "fills randRead \<longleftrightarrow>
     (\<forall>r buf r' buf'. randRead r buf = Some (r', buf') \<longrightarrow> length buf' = length buf)"

fun splitLoop ::
  "'r rand_read \<Rightarrow> byte list \<Rightarrow> nat list \<Rightarrow> byte list \<Rightarrow> 'r \<Rightarrow> shamirShare list
    \<Rightarrow> (shamir_error, shamirShare list) result" where
  "splitLoop randRead secret [] coeffs r shares = Inr shares"
| "splitLoop randRead secret (b # bs) coeffs r shares =
     (let coeffs = coeffs[0 := secret ! b] in
      case randRead r (drop 1 coeffs) of
        None \<Rightarrow> Inl errRandRead
      | Some (r', rnd) \<Rightarrow>
          let coeffs = coeffs ! 0 # rnd in
          splitLoop randRead secret bs coeffs r'
            (map (\<lambda>s. s\<lparr>share_Y := (share_Y s)[b := gfEval coeffs (share_X s)]\<rparr>) shares))"

definition shamirSplit ::
  "byte list \<Rightarrow> int \<Rightarrow> int \<Rightarrow> 'r rand_read \<Rightarrow> 'r \<Rightarrow> (shamir_error, shamirShare list) result" where
  "shamirSplit secret parts threshold randRead r =
     (if threshold < 2 then Inl errThresholdTooLow
      else if parts < threshold then Inl errPartsBelowThreshold
      else if parts > 255 then Inl errTooManyParts
      else if length secret = 0 then Inl errEmptySecret
      else
        let shares = map (\<lambda>i. \<lparr>share_X = word_of_nat (i + 1),
                               share_Y = replicate (length secret) 0\<rparr>) [0..<nat parts]
        in splitLoop randRead secret [0..<length secret] (replicate (nat threshold) 0) r shares)"

fun combineCheck :: "nat \<Rightarrow> (byte \<Rightarrow> bool) \<Rightarrow> shamirShare list \<Rightarrow> shamir_error option" where
  "combineCheck secretLen seenX [] = None"
| "combineCheck secretLen seenX (s # ss) =
     (if share_X s = 0 then Some errShareZeroX
      else if length (share_Y s) \<noteq> secretLen then Some errShareLengthMismatch
      else if seenX (share_X s) then Some errShareDuplicateX
      else combineCheck secretLen (seenX(share_X s := True)) ss)"

definition basisAtZero :: "shamirShare list \<Rightarrow> nat \<Rightarrow> byte \<times> byte" where
  "basisAtZero shares i =
     foldl (\<lambda>(num, den) j.
         if i = j then (num, den)
         else (gfMul num (share_X (shares ! j)),
               gfMul den (share_X (shares ! i) XOR share_X (shares ! j))))
       (1, 1) [0..<length shares]"

definition combineByte :: "shamirShare list \<Rightarrow> nat \<Rightarrow> byte" where
  "combineByte shares b =
     foldl (\<lambda>acc i. case basisAtZero shares i of (num, den) \<Rightarrow>
         acc XOR gfMul (share_Y (shares ! i) ! b) (gfDiv num den))
       0 [0..<length shares]"

definition shamirCombine :: "shamirShare list \<Rightarrow> (shamir_error, byte list) result" where
  "shamirCombine shares =
     (if length shares < 2 then Inl errTooFewShares
      else
        let secretLen = length (share_Y (shares ! 0)) in
        if secretLen = 0 then Inl errShareMalformed
        else case combineCheck secretLen (\<lambda>_. False) shares of
          Some e \<Rightarrow> Inl e
        | None \<Rightarrow> Inr (map (combineByte shares) [0..<secretLen]))"

subsection \<open>Evaluation and the interpolation weights in the field\<close>

lemma gfEval_Nil [simp]: "gfEval [] x = 0"
  by (simp add: gfEval_def)

lemma gfEval_Cons [simp]: "gfEval (c # cs) x = gfMul (gfEval cs x) x XOR c"
proof -
  have "rev [0..<length (c # cs)] = map Suc (rev [0..<length cs]) @ [0]"
    by (simp add: upt_conv_Cons rev_map map_Suc_upt [symmetric] del: upt_Suc)
  then show ?thesis
    by (simp add: gfEval_def foldl_map del: upt_Suc)
qed

lemma gfEval_peval: "gf_of (gfEval cs x) = peval (map gf_of cs) (gf_of x)"
  by (induction cs) (simp_all add: gf_of_hom mult.commute add.commute)

lemma basisAtZero_prod:
  assumes "basisAtZero shares i = (num, den)"
  shows "gf_of num = (\<Prod>j\<in>{0..<length shares} - {i}. gf_of (share_X (shares ! j)))"
    "gf_of den = (\<Prod>j\<in>{0..<length shares} - {i}.
       gf_of (share_X (shares ! j)) - gf_of (share_X (shares ! i)))"
proof -
  define x where "x = (\<lambda>j. gf_of (share_X (shares ! j)))"
  let ?f = "\<lambda>(num, den) j. if i = j then (num, den)
         else (gfMul num (share_X (shares ! j)), gfMul den (share_X (shares ! i) XOR share_X (shares ! j)))"
  have "gf_of (fst (foldl ?f (1, 1) [0..<n])) = (\<Prod>j\<in>{0..<n} - {i}. x j) \<and>
      gf_of (snd (foldl ?f (1, 1) [0..<n])) = (\<Prod>j\<in>{0..<n} - {i}. x j - x i)" for n
  proof (induction n)
    case (Suc n)
    show ?case
    proof (cases "i = n")
      case True
      then have "{0..<Suc n} - {i} = {0..<n} - {i}"
        by auto
      with Suc True show ?thesis
        by (simp add: split_beta)
    next
      case False
      then have "{0..<Suc n} - {i} = insert n ({0..<n} - {i})"
        by auto
      with Suc False show ?thesis
        by (simp add: split_beta x_def gf_of_hom gf_minus mult.commute add.commute)
    qed
  qed (simp add: gf_of_hom)
  from this [of "length shares"]
  show "gf_of num = (\<Prod>j\<in>{0..<length shares} - {i}. gf_of (share_X (shares ! j)))"
    "gf_of den = (\<Prod>j\<in>{0..<length shares} - {i}.
       gf_of (share_X (shares ! j)) - gf_of (share_X (shares ! i)))"
    using assms by (simp_all add: basisAtZero_def x_def)
qed

lemma combineByte_sum:
  "gf_of (combineByte shares b) =
    (\<Sum>i\<in>{0..<length shares}. gf_of (share_Y (shares ! i) ! b) *
       lag (\<lambda>j. gf_of (share_X (shares ! j))) {0..<length shares} i)"
proof -
  let ?I = "{0..<length shares}" and ?x = "\<lambda>j. gf_of (share_X (shares ! j))"
  have "gf_of (foldl (\<lambda>acc i. case basisAtZero shares i of (num, den) \<Rightarrow>
         acc XOR gfMul (share_Y (shares ! i) ! b) (gfDiv num den)) 0 [0..<n]) =
      (\<Sum>i\<in>{0..<n}. gf_of (share_Y (shares ! i) ! b) * lag ?x ?I i)" for n
  proof (induction n)
    case (Suc n)
    obtain num den where nd: "basisAtZero shares n = (num, den)"
      by (cases "basisAtZero shares n")
    have "lag ?x ?I n = gf_of num / gf_of den"
      unfolding basisAtZero_prod [OF nd] lag_def prod_dividef ..
    with Suc nd show ?case
      by (simp add: gf_of_hom)
  qed (simp add: gf_of_hom)
  then show ?thesis
    by (simp add: combineByte_def)
qed

subsection \<open>What a split produces\<close>

lemma splitLoop_shape:
  assumes "fills randRead"
  shows "splitLoop randRead secret bs coeffs r shares = Inr out \<Longrightarrow> coeffs \<noteq> [] \<Longrightarrow> distinct bs \<Longrightarrow>
    \<forall>s\<in>set shares. length (share_Y s) = n \<Longrightarrow> \<forall>b\<in>set bs. b < n \<Longrightarrow>
    \<exists>f. (\<forall>b\<in>set bs. length (f b) = length coeffs \<and> f b ! 0 = secret ! b) \<and>
      out = map (\<lambda>s. s\<lparr>share_Y := map (\<lambda>b. if b \<in> set bs then gfEval (f b) (share_X s)
                                               else share_Y s ! b) [0..<n]\<rparr>) shares"
proof (induction bs arbitrary: coeffs r shares)
  case Nil
  have "map (\<lambda>s. s\<lparr>share_Y := map (\<lambda>b. if b \<in> set [] then gfEval (undefined b) (share_X s)
      else share_Y s ! b) [0..<n]\<rparr>) shares = shares"
  proof (rule map_idI)
    fix s assume "s \<in> set shares"
    then have "map ((!) (share_Y s)) [0..<n] = share_Y s"
      using Nil.prems(4) by (metis map_nth)
    then show "s\<lparr>share_Y := map (\<lambda>b. if b \<in> set [] then gfEval (undefined b) (share_X s)
      else share_Y s ! b) [0..<n]\<rparr> = s"
      by simp
  qed
  with Nil.prems(1) show ?case
    by (intro exI [of _ undefined]) simp
next
  case (Cons b bs)
  let ?c = "coeffs[0 := secret ! b]"
  obtain r' rnd where rr: "randRead r (drop 1 ?c) = Some (r', rnd)"
    using Cons.prems(1) by (auto simp: Let_def split: option.splits)
  define c where "c = ?c ! 0 # rnd"
  define upd :: "shamirShare \<Rightarrow> shamirShare" where "upd = (\<lambda>s. s\<lparr>share_Y := (share_Y s)[b := gfEval c (share_X s)]\<rparr>)"
  have loop: "splitLoop randRead secret bs c r' (map upd shares) = Inr out"
    using Cons.prems(1) rr by (simp add: Let_def c_def upd_def)
  have "length rnd = length coeffs - 1"
    using assms rr unfolding fills_def by fastforce
  with Cons.prems(2) have len: "length c = length coeffs" "c ! 0 = secret ! b" "c \<noteq> []"
    by (cases coeffs; simp add: c_def)+
  obtain f where f: "\<forall>b\<in>set bs. length (f b) = length c \<and> f b ! 0 = secret ! b"
      "out = map (\<lambda>s. s\<lparr>share_Y := map (\<lambda>b. if b \<in> set bs then gfEval (f b) (share_X s)
                                               else share_Y s ! b) [0..<n]\<rparr>) (map upd shares)"
    using Cons.IH [OF loop len(3)] Cons.prems(3-5) by (auto simp: upd_def)
  let ?g = "f(b := c)"
  have "\<forall>b'\<in>set (b # bs). length (?g b') = length coeffs \<and> ?g b' ! 0 = secret ! b'"
    using f(1) len Cons.prems(3) by auto
  moreover have "out = map (\<lambda>s. s\<lparr>share_Y := map (\<lambda>b'. if b' \<in> set (b # bs) then gfEval (?g b') (share_X s)
                                               else share_Y s ! b') [0..<n]\<rparr>) shares"
    unfolding f(2) map_map
  proof (rule map_cong [OF refl])
    fix s assume "s \<in> set shares"
    then have "length (share_Y s) = n"
      using Cons.prems(4) by blast
    then have "map (\<lambda>b'. if b' \<in> set bs then gfEval (f b') (share_X s) else (share_Y s)[b := gfEval c (share_X s)] ! b') [0..<n] =
        map (\<lambda>b'. if b' \<in> set (b # bs) then gfEval (?g b') (share_X s) else share_Y s ! b') [0..<n]"
      using Cons.prems(3) by (intro map_cong refl) (auto simp: nth_list_update)
    then show "((\<lambda>s. s\<lparr>share_Y := map (\<lambda>b. if b \<in> set bs then gfEval (f b) (share_X s)
          else share_Y s ! b) [0..<n]\<rparr>) \<circ> upd) s =
        s\<lparr>share_Y := map (\<lambda>b'. if b' \<in> set (b # bs) then gfEval (?g b') (share_X s) else share_Y s ! b') [0..<n]\<rparr>"
      by (simp add: upd_def cong: if_cong)
  qed
  ultimately show ?case
    by blast
qed

lemma shamirSplit_guards:
  assumes "shamirSplit secret parts threshold randRead r = Inr shares"
  shows "2 \<le> threshold" "threshold \<le> parts" "parts \<le> 255" "secret \<noteq> []"
  using assms by (auto simp: shamirSplit_def split: if_splits)

text \<open>The share with index \<open>i\<close> of the polynomials \<open>f b\<close>, one for each secret byte.\<close>

definition share_of :: "(nat \<Rightarrow> byte list) \<Rightarrow> nat \<Rightarrow> nat \<Rightarrow> shamirShare" where
  "share_of f n i = \<lparr>share_X = word_of_nat (i + 1),
     share_Y = map (\<lambda>b. gfEval (f b) (word_of_nat (i + 1))) [0..<n]\<rparr>"

lemma shamirSplit_shape:
  assumes "fills randRead" "shamirSplit secret parts threshold randRead r = Inr shares"
  shows "\<exists>f. (\<forall>b<length secret. length (f b) = nat threshold \<and> f b ! 0 = secret ! b) \<and>
    shares = map (share_of f (length secret)) [0..<nat parts]"
proof -
  define n where "n = length secret"
  let ?init = "map (\<lambda>i. \<lparr>share_X = word_of_nat (i + 1), share_Y = replicate n (0 :: byte)\<rparr>) [0..<nat parts]"
  note ok = shamirSplit_guards [OF assms(2)]
  have loop: "splitLoop randRead secret [0..<n] (replicate (nat threshold) 0) r ?init = Inr shares"
    using assms(2) ok by (simp add: shamirSplit_def n_def Let_def)
  have "\<exists>f. (\<forall>b\<in>set [0..<n]. length (f b) = length (replicate (nat threshold) (0 :: byte)) \<and> f b ! 0 = secret ! b) \<and>
      shares = map (\<lambda>s. s\<lparr>share_Y := map (\<lambda>b. if b \<in> set [0..<n] then gfEval (f b) (share_X s)
                                               else share_Y s ! b) [0..<n]\<rparr>) ?init"
    using ok(1) by (intro splitLoop_shape [OF assms(1) loop]) auto
  then obtain f where
      f: "\<forall>b\<in>set [0..<n]. length (f b) = length (replicate (nat threshold) (0 :: byte)) \<and> f b ! 0 = secret ! b"
      "shares = map (\<lambda>s. s\<lparr>share_Y := map (\<lambda>b. if b \<in> set [0..<n] then gfEval (f b) (share_X s)
                                               else share_Y s ! b) [0..<n]\<rparr>) ?init"
    by blast
  have "shares = map (share_of f n) [0..<nat parts]"
    unfolding f(2) by (simp add: share_of_def)
  moreover have "\<forall>b<n. length (f b) = nat threshold \<and> f b ! 0 = secret ! b"
    using f(1) by auto
  ultimately show ?thesis
    unfolding n_def by blast
qed

lemma share_of_X:
  assumes "i < 255"
  shows "unat (share_X (share_of f n i)) = i + 1"
proof -
  have "unat (word_of_nat (i + 1) :: byte) = i + 1"
    using assms by (simp only: unat_of_nat) simp
  then show ?thesis
    by (simp only: share_of_def shamirShare.simps)
qed

lemma combineCheck_None:
  "combineCheck n seen ss = None \<longleftrightarrow>
     (\<forall>s\<in>set ss. share_X s \<noteq> 0 \<and> length (share_Y s) = n \<and> \<not> seen (share_X s)) \<and>
     distinct (map share_X ss)"
proof (induction ss arbitrary: seen)
  case (Cons s ss)
  have "(\<forall>t\<in>set ss. \<not> (seen(share_X s := True)) (share_X t)) \<longleftrightarrow>
      (\<forall>t\<in>set ss. \<not> seen (share_X t)) \<and> share_X s \<notin> share_X ` set ss"
    by (auto simp: image_def)
  then show ?case
    by (simp add: Cons.IH ball_conj_distrib del: fun_upd_apply)
qed simp

lemma combine_polynomial:
  assumes "shares \<noteq> []" "distinct (map share_X shares)" "length cs \<le> length shares" "cs \<noteq> []"
    and vals: "\<And>s. s \<in> set shares \<Longrightarrow> share_Y s ! b = gfEval cs (share_X s)"
  shows "combineByte shares b = cs ! 0"
proof -
  let ?x = "\<lambda>j. gf_of (share_X (shares ! j))" and ?I = "{0..<length shares}"
  have inj: "inj_on ?x ?I"
    using nth_eq_iff_index_eq [OF assms(2)] by (auto simp: inj_on_def gf_of_inject)
  have "gf_of (combineByte shares b) = (\<Sum>i\<in>?I. peval (map gf_of cs) (?x i) * lag ?x ?I i)"
    by (subst combineByte_sum, intro sum.cong refl) (simp add: vals gfEval_peval)
  also have "\<dots> = peval (map gf_of cs) 0"
    using assms(1,3) inj by (simp add: lagrange_at_zero)
  also have "\<dots> = gf_of (cs ! 0)"
    using assms(4) by (cases cs) simp_all
  finally show ?thesis
    by (simp add: gf_of_inject)
qed

text \<open>
  C3. Any selection of at least \<open>threshold\<close> distinct shares of a successful split
  reconstructs the secret, whatever the random source delivered.
\<close>

theorem shamirCombine_recovers:
  assumes "fills randRead" "shamirSplit secret parts threshold randRead r = Inr shares"
    and "set sel \<subseteq> set shares" "distinct sel" "threshold \<le> int (length sel)"
  shows "shamirCombine sel = Inr secret"
proof -
  note ok = shamirSplit_guards [OF assms(2)]
  obtain f where f: "\<forall>b<length secret. length (f b) = nat threshold \<and> f b ! 0 = secret ! b"
    and shares: "shares = map (share_of f (length secret)) [0..<nat parts]"
    using shamirSplit_shape [OF assms(1,2)] by blast
  have sel: "\<exists>i<255. s = share_of f (length secret) i \<and> unat (share_X s) = i + 1"
    if "s \<in> set sel" for s
  proof -
    from that assms(3) obtain i where "i < nat parts" "s = share_of f (length secret) i"
      by (auto simp: shares)
    with ok(3) show ?thesis
      by (intro exI [of _ i]) (simp add: share_of_X)
  qed
  have inj: "inj_on share_X (set sel)"
  proof (rule inj_onI)
    fix s t assume "s \<in> set sel" "t \<in> set sel" "share_X s = share_X t"
    moreover from this obtain i j where
      "s = share_of f (length secret) i" "unat (share_X s) = i + 1"
      "t = share_of f (length secret) j" "unat (share_X t) = j + 1"
      using sel by blast
    ultimately show "s = t"
      by simp
  qed
  have nz: "share_X s \<noteq> 0" if "s \<in> set sel" for s
    using sel [OF that] by auto
  have Y: "share_Y s = map (\<lambda>b. gfEval (f b) (share_X s)) [0..<length secret]" if "s \<in> set sel" for s
    using sel [OF that] by (auto simp: share_of_def)
  have dist: "distinct (map share_X sel)"
    using assms(4) inj by (simp add: distinct_map)
  have len: "2 \<le> length sel"
    using assms(5) ok(1) by simp
  have Y0: "length (share_Y (sel ! 0)) = length secret"
    using Y [OF nth_mem [of 0 sel]] len by (cases sel) simp_all
  have "combineByte sel b = secret ! b" if "b < length secret" for b
    using f that len assms(5) ok(1) dist Y by (subst combine_polynomial [of _ "f b"]) auto
  then have "map (combineByte sel) [0..<length secret] = secret"
    by (intro nth_equalityI) simp_all
  moreover have "combineCheck (length secret) (\<lambda>_. False) sel = None"
    using dist nz Y by (auto simp: combineCheck_None)
  ultimately show ?thesis
    using len ok(4) Y0 by (simp add: shamirCombine_def)
qed

text \<open>A random source that fills the slice with one byte, for the concrete runs.\<close>

definition constRead :: "byte \<Rightarrow> unit rand_read" where
  "constRead c r buf = Some (r, map (\<lambda>_. c) buf)"

lemma fills_constRead: "fills (constRead c)"
  by (simp add: fills_def constRead_def)

lemma split_example:
  "shamirSplit [0x2a, 5] 3 2 (constRead 7) () =
     Inr [\<lparr>share_X = 1, share_Y = [0x2d, 2]\<rparr>, \<lparr>share_X = 2, share_Y = [0x24, 0xb]\<rparr>,
          \<lparr>share_X = 3, share_Y = [0x23, 0xc]\<rparr>]"
  by (simp add: shamirSplit_def constRead_def replicate_numeral upt_rec_numeral upt_rec Let_def)
    (simp add: gfMul_def xtime_def)

theorem shamirCombine_recovers_witness:
  "shamirCombine [\<lparr>share_X = 3, share_Y = [0x23, 0xc]\<rparr>, \<lparr>share_X = 1, share_Y = [0x2d, 2]\<rparr>] =
     Inr [0x2a, 5]"
  by (rule shamirCombine_recovers [OF fills_constRead split_example]) simp_all

subsection \<open>Results of the operations on every branch\<close>

lemma splitLoop_total:
  assumes "\<And>r buf. randRead r buf \<noteq> None"
  shows "\<exists>out. splitLoop randRead secret bs coeffs r shares = Inr out"
  using assms by (induction bs arbitrary: coeffs r shares) (auto simp: Let_def split: option.splits)

text \<open>
  With a random source that never fails, a split succeeds exactly when
  \<open>2 \<le> threshold \<le> parts \<le> 255\<close> and the secret is not empty; it then returns \<open>parts\<close>
  shares with the distinct x-coordinates \<open>1, \<dots>, parts\<close>, each as long as the secret.
\<close>

theorem shamirSplit_succeeds_iff:
  assumes "fills randRead" "\<And>r buf. randRead r buf \<noteq> None"
  shows "(\<exists>shares. shamirSplit secret parts threshold randRead r = Inr shares \<and>
            map share_X shares = map word_of_nat [1..<nat parts + 1] \<and>
            distinct (map share_X shares) \<and> (\<forall>s\<in>set shares. length (share_Y s) = length secret))
         \<longleftrightarrow> 2 \<le> threshold \<and> threshold \<le> parts \<and> parts \<le> 255 \<and> secret \<noteq> []"
    (is "?lhs \<longleftrightarrow> ?rhs")
proof
  assume ?lhs
  then obtain shares where "shamirSplit secret parts threshold randRead r = Inr shares"
    by blast
  then show ?rhs
    by (simp add: shamirSplit_guards)
next
  assume ok: ?rhs
  then have "\<exists>shares. shamirSplit secret parts threshold randRead r = Inr shares"
    by (simp add: shamirSplit_def Let_def splitLoop_total assms(2) del: replicate.simps)
  then obtain shares where sh: "shamirSplit secret parts threshold randRead r = Inr shares" ..
  obtain f where f: "shares = map (share_of f (length secret)) [0..<nat parts]"
    using shamirSplit_shape [OF assms(1) sh] by blast
  have "map share_X shares = map (\<lambda>i. word_of_nat (Suc i)) [0..<nat parts]"
    by (simp add: f share_of_def)
  also have "\<dots> = map word_of_nat (map Suc [0..<nat parts])"
    by simp
  also have "map Suc [0..<nat parts] = [1..<nat parts + 1]"
    by (simp add: map_Suc_upt del: upt_Suc)
  finally have X: "map share_X shares = map word_of_nat [1..<nat parts + 1]" .
  have "inj_on (word_of_nat :: nat \<Rightarrow> byte) (set [1..<nat parts + 1])"
    by (rule inj_on_inverseI [of _ unat]) (use ok in \<open>auto simp: unat_of_nat intro!: mod_less\<close>)
  then have "distinct (map share_X shares)"
    unfolding X by (simp add: distinct_map del: upt_Suc)
  with sh X show ?lhs
    by (auto simp: f share_of_def)
qed

theorem shamirSplit_succeeds_iff_witness:
  "\<exists>shares. shamirSplit [0x2a, 5] 3 2 (constRead 7) () = Inr shares \<and>
     map share_X shares = map word_of_nat [1..<nat 3 + 1] \<and>
     distinct (map share_X shares) \<and> (\<forall>s\<in>set shares. length (share_Y s) = length [0x2a, 5 :: byte])"
  by (subst shamirSplit_succeeds_iff [OF fills_constRead]) (simp_all add: constRead_def)

text \<open>
  C11. Perfect secrecy below the threshold: for any \<open>threshold - 1\<close> distinct non-zero
  x-coordinates, any values observed there and any candidate secret byte, there is
  exactly one choice of the random coefficients that explains the observation.
\<close>

theorem gfEval_secrecy:
  assumes "distinct xs" "0 \<notin> set xs" "length ys = length xs"
  shows "\<exists>!cs. length cs = length xs \<and> map (gfEval (s # cs)) xs = ys"
proof -
  define n where "n = length xs"
  define A where "A = {cs :: byte list. length cs = n}"
  define F where "F = (\<lambda>cs. map (gfEval (s # cs)) xs)"
  have "finite A"
    using finite_lists_length_eq [of "UNIV :: byte set" n] by (simp add: A_def)
  have inj: "inj_on F A"
  proof (rule inj_onI)
    fix cs ds assume asm: "cs \<in> A" "ds \<in> A" "F cs = F ds"
    define d where "d = map2 (\<lambda>a b. gf_of a - gf_of b) cs ds"
    have len: "length cs = length ds" "length d = n"
      using asm by (simp_all add: A_def d_def)
    have sub: "peval (map2 (\<lambda>a b. gf_of a - gf_of b) cs ds) x =
        peval (map gf_of cs) x - peval (map gf_of ds) x" for x
      using len(1) by (induction cs ds rule: list_induct2) (simp_all, simp add: algebra_simps)
    have "peval d x = 0" if "x \<in> set (map gf_of xs)" for x
    proof -
      from that obtain a where a: "a \<in> set xs" "x = gf_of a" by auto
      then have "gfEval (s # cs) a = gfEval (s # ds) a"
        using asm(3) by (auto simp: F_def)
      then have "gf_of (gfEval (s # cs) a) = gf_of (gfEval (s # ds) a)"
        by simp
      then have "x * peval (map gf_of cs) x = x * peval (map gf_of ds) x"
        by (simp add: gfEval_peval a(2) del: gfEval_Cons)
      moreover have "x \<noteq> 0"
        using a assms(2) by (auto simp: gf_eq_iff)
      ultimately show ?thesis
        by (simp add: d_def sub)
    qed
    moreover have "distinct (map gf_of xs)" "0 \<notin> set (map gf_of xs)"
      using assms(1,2) by (auto simp: distinct_map inj_on_def gf_of_inject gf_eq_iff)
    ultimately have "\<forall>c\<in>set d. c = 0"
      using len(2) by (intro peval_roots_coeffs [of "map gf_of xs"]) (simp_all add: n_def)
    then have "d ! i = 0" if "i < n" for i
      using that len(2) by simp
    then have "cs ! i = ds ! i" if "i < n" for i
      using that asm(1,2) by (simp add: d_def A_def gf_of_inject)
    then show "cs = ds"
      using asm(1,2) by (auto simp: A_def intro: nth_equalityI)
  qed
  have "F ` A \<subseteq> A"
    by (auto simp: F_def A_def n_def)
  with \<open>finite A\<close> inj have "F ` A = A"
    by (intro endo_inj_surj)
  moreover have "ys \<in> A"
    using assms(3) by (simp add: A_def n_def)
  ultimately obtain cs where "cs \<in> A" "F cs = ys"
    by (metis imageE)
  with inj show ?thesis
    unfolding F_def A_def n_def inj_on_def by blast
qed

theorem gfEval_secrecy_witness:
  "\<exists>!cs. length cs = length [1, 3 :: byte] \<and> map (gfEval (0x2a # cs)) [1, 3] = [0x55, 0xaa]"
  by (rule gfEval_secrecy) simp_all

text \<open>
  Serialising a share and parsing it back is the identity on well-formed shares,
  and parsing accepts nothing but serialised well-formed shares.
\<close>

theorem parseShamirShare_iff:
  "parseShamirShare b = Inr s \<longleftrightarrow>
     b = shamirShare_bytes s \<and> share_X s \<noteq> 0 \<and> share_Y s \<noteq> []"
proof (cases b)
  case (Cons x ys)
  then show ?thesis
    by (cases s; cases ys) (auto simp: parseShamirShare_def shamirShare_bytes_def)
qed (simp add: parseShamirShare_def shamirShare_bytes_def)

text \<open>
  Reconstruction returns a result exactly for at least two shares of one common
  non-zero length with distinct non-zero x-coordinates; everything else is refused.
\<close>

theorem shamirCombine_accepts_iff:
  "(\<exists>secret. shamirCombine shares = Inr secret) \<longleftrightarrow>
     2 \<le> length shares \<and> distinct (map share_X shares) \<and>
     (\<exists>n>0. \<forall>s\<in>set shares. share_X s \<noteq> 0 \<and> length (share_Y s) = n)"
proof (cases "2 \<le> length shares")
  case True
  then have hd: "shares ! 0 \<in> set shares"
    by (intro nth_mem) linarith
  let ?n = "length (share_Y (shares ! 0))"
  have "(\<exists>n>0. \<forall>s\<in>set shares. share_X s \<noteq> 0 \<and> length (share_Y s) = n) \<longleftrightarrow>
      0 < ?n \<and> (\<forall>s\<in>set shares. share_X s \<noteq> 0 \<and> length (share_Y s) = ?n)"
    using hd by metis
  moreover have "(\<exists>secret. shamirCombine shares = Inr secret) \<longleftrightarrow>
      0 < ?n \<and> combineCheck ?n (\<lambda>_. False) shares = None"
    using True by (simp add: shamirCombine_def Let_def split: option.splits)
  ultimately show ?thesis
    using True by (auto simp: combineCheck_None)
qed (simp add: shamirCombine_def)

theorem shamirCombine_accepts_iff_witness:
  "\<exists>secret. shamirCombine [\<lparr>share_X = 1, share_Y = [9]\<rparr>, \<lparr>share_X = 2, share_Y = [7]\<rparr>] = Inr secret"
  by (subst shamirCombine_accepts_iff) simp

text \<open>
  The comment at the tables says the duplicated entry \<open>gfExp[255]\<close> is never read. It
  is: the logarithm of 1 is 0, so inverting 1 reads exactly that entry.
\<close>

lemma gfInv_one_reads_255:
  "255 - unat (gfLog ! unat (1 :: byte)) = 255 \<and> gfInv 1 = gfExp ! 255"
proof -
  have "gfLog ! unat (1 :: byte) = 0"
    using gfLog_nth [of 0] by simp
  then show ?thesis
    by (simp add: gfInv_def)
qed

end
