(* ===== verification/Hash_Chain.thy ===== *)
theory Hash_Chain
  imports Secsy_Prelude
begin

text \<open>
  The contract behind every tamper-evident log of the program (the audit event log,
  the signature ledger, the device log): each entry stores a digest of its own
  content together with the digest its predecessor stores. The locale states what a
  concrete log promises and derives what a verified chain gives: two verified chains
  of one length that end in the same digest carry the same contents, unless the hash
  primitive has been broken.
\<close>

text \<open>A chain of self-consistent entries, each linked to the digest before it.\<close>

fun linked :: "('e \<Rightarrow> 'd) \<Rightarrow> ('e \<Rightarrow> 'd) \<Rightarrow> ('e \<Rightarrow> bool) \<Rightarrow> 'd \<Rightarrow> 'e list \<Rightarrow> bool" where
  "linked prev_of hash_of sealed g [] \<longleftrightarrow> True"
| "linked prev_of hash_of sealed g (e # es) \<longleftrightarrow>
     prev_of e = g \<and> sealed e \<and> linked prev_of hash_of sealed (hash_of e) es"

lemma linked_append [simp]:
  "linked p h s g (xs @ ys) \<longleftrightarrow>
     linked p h s g xs \<and> linked p h s (if xs = [] then g else h (last xs)) ys"
  by (induction xs arbitrary: g) simp_all

lemma linked_take: "linked p h s g xs \<Longrightarrow> linked p h s g (take n xs)"
  by (metis append_take_drop_id linked_append)

lemma linked_sealed: "linked p h s g xs \<Longrightarrow> e \<in> set xs \<Longrightarrow> s e"
  by (induction xs arbitrary: g) auto

lemma linked_image:
  "linked p h s g xs \<Longrightarrow> (\<And>e. e \<in> set xs \<Longrightarrow> s e \<Longrightarrow> s' e) \<Longrightarrow>
     linked (\<lambda>e. f (p e)) (\<lambda>e. f (h e)) s' (f g) xs"
  by (induction xs arbitrary: g) auto

text \<open>The same chain, read by positions.\<close>

lemma linked_nth:
  "linked p h s g xs \<longleftrightarrow>
     (\<forall>i<length xs. p (xs ! i) = (if i = 0 then g else h (xs ! (i - 1))) \<and> s (xs ! i))"
proof (induction xs arbitrary: g)
  case (Cons x xs)
  show ?case
    by (auto simp: Cons.IH less_Suc_eq_0_disj nth_Cons' split: if_splits)
qed simp

section \<open>Sequence numbers\<close>

text \<open>
  Rows numbered 1, 2, \<dots> in a signed 64-bit column, and the row a query for the largest
  number finds.
\<close>

definition in_order :: "('e \<Rightarrow> i64) \<Rightarrow> 'e list \<Rightarrow> bool" where
  "in_order seq es \<longleftrightarrow> (\<forall>i<length es. seq (es ! i) = word_of_nat (i + 1))"

fun newest_by :: "('e \<Rightarrow> i64) \<Rightarrow> 'e list \<Rightarrow> 'e option" where
  "newest_by seq [] = None"
| "newest_by seq (r # rs) =
     (case newest_by seq rs of
        None \<Rightarrow> Some r
      | Some m \<Rightarrow> Some (if sint (seq r) < sint (seq m) then m else r))"

lemma in_order_Nil [simp]: "in_order seq []"
  by (simp add: in_order_def)

lemma in_order_snoc [simp]:
  "in_order seq (es @ [e]) \<longleftrightarrow> in_order seq es \<and> seq e = word_of_nat (length es + 1)"
  by (auto simp: in_order_def less_Suc_eq nth_append)

lemma in_order_nth:
  assumes "in_order seq es" "i < length es" "length es < 2 ^ 63"
  shows "seq (es ! i) = word_of_nat (i + 1)" "sint (seq (es ! i)) = int i + 1"
proof -
  show "seq (es ! i) = word_of_nat (i + 1)"
    using assms(1,2) by (simp add: in_order_def)
  then have "seq (es ! i) = word_of_int (int i + 1)"
    by simp
  moreover have "sint (word_of_int (int i + 1) :: i64) = int i + 1"
    using assms(2,3) by (simp only: int_word_sint) simp
  ultimately show "sint (seq (es ! i)) = int i + 1"
    by simp
qed

lemma in_order_mono:
  assumes "in_order seq es" "length es < 2 ^ 63" "a \<le> b" "b < length es"
  shows "sint (seq (es ! a)) \<le> sint (seq (es ! b))"
  using in_order_nth(2) [OF assms(1) _ assms(2), of a] in_order_nth(2) [OF assms(1) _ assms(2), of b] assms(3,4)
  by simp

lemma in_order_sorted: "in_order seq es \<Longrightarrow> length es < 2 ^ 63 \<Longrightarrow> sort_key (\<lambda>e. sint (seq e)) es = es"
  by (intro sort_key_id_if_sorted) (simp add: sorted_iff_nth_mono in_order_mono)

lemma newest_by_snoc:
  "(\<And>r. r \<in> set rows \<Longrightarrow> sint (seq r) < sint (seq e)) \<Longrightarrow> newest_by seq (rows @ [e]) = Some e"
  by (induction rows) (auto split: option.splits)

lemma in_order_newest:
  assumes "in_order seq rows" "length rows < 2 ^ 63"
  shows "newest_by seq rows = (if rows = [] then None else Some (last rows))"
proof (cases rows rule: rev_cases)
  case (snoc xs e)
  note seq = in_order_nth(2) [OF assms(1) _ assms(2), unfolded snoc]
  have "sint (seq r) < sint (seq e)" if "r \<in> set xs" for r
  proof -
    obtain k where "k < length xs" "r = xs ! k"
      using \<open>r \<in> set xs\<close> by (auto simp: in_set_conv_nth)
    then show ?thesis
      using seq [of k] seq [of "length xs"] by (simp add: nth_append)
  qed
  then show ?thesis
    using newest_by_snoc [of xs seq e] by (simp add: snoc)
qed simp

lemma in_order_next:
  assumes "in_order seq rows" "length rows + 1 < 2 ^ 63"
  shows "word_of_nat (length rows + 1) \<notin> seq ` set rows"
    and "rows \<noteq> [] \<Longrightarrow> seq (last rows) + 1 = word_of_nat (length rows + 1)"
proof -
  have len: "length rows < 2 ^ 63"
    using assms(2) by simp
  show "word_of_nat (length rows + 1) \<notin> seq ` set rows"
  proof
    assume "word_of_nat (length rows + 1) \<in> seq ` set rows"
    then obtain i where i: "i < length rows" "seq (rows ! i) = word_of_nat (length rows + 1)"
      by (metis imageE in_set_conv_nth)
    then have "(word_of_nat (i + 1) :: i64) = word_of_nat (length rows + 1)"
      using in_order_nth(1) [OF assms(1) _ len] by metis
    then have "unat (word_of_nat (i + 1) :: i64) = unat (word_of_nat (length rows + 1) :: i64)"
      by (simp only:)
    then show False
      using i(1) assms(2) by (simp only: unat_of_nat) simp
  qed
  show "seq (last rows) + 1 = word_of_nat (length rows + 1)" if "rows \<noteq> []"
    using in_order_nth(1) [OF assms(1) _ len, of "length rows - 1"] that by (simp add: last_conv_nth)
qed

section \<open>The contract\<close>

locale hash_chain =
  fixes prev_of hash_of :: "'e \<Rightarrow> 'd" and content :: "'e \<Rightarrow> 'c"
    and sealed :: "'e \<Rightarrow> bool" and broken :: bool
  assumes binding: "sealed e \<Longrightarrow> sealed f \<Longrightarrow> hash_of e = hash_of f \<Longrightarrow>
    broken \<or> content e = content f \<and> prev_of e = prev_of f"
begin

abbreviation chain :: "'d \<Rightarrow> 'e list \<Rightarrow> bool" where
  "chain \<equiv> linked prev_of hash_of sealed"

lemma same_head:
  assumes "chain g es" "chain g' fs" "length es = length fs" "es \<noteq> []"
    and "hash_of (last es) = hash_of (last fs)"
  shows "broken \<or> map content es = map content fs \<and> g = g'"
  using assms
proof (induction es arbitrary: fs rule: rev_induct)
  case (snoc e es)
  from snoc.prems(3) obtain f fs' where fs: "fs = fs' @ [f]" and len: "length es = length fs'"
    by (cases fs rule: rev_cases) auto
  have "broken \<or> content e = content f \<and> prev_of e = prev_of f"
    using snoc.prems(1,2,5) by (intro binding) (simp_all add: fs)
  then show ?case
  proof
    assume eq: "content e = content f \<and> prev_of e = prev_of f"
    show ?thesis
    proof (cases "es = []")
      case True
      with snoc.prems eq len show ?thesis
        by (simp add: fs)
    next
      case False
      with len have "fs' \<noteq> []" by auto
      with False snoc.prems eq have "hash_of (last es) = hash_of (last fs')"
        by (simp add: fs)
      with snoc.IH [of fs'] snoc.prems False len have "broken \<or> map content es = map content fs' \<and> g = g'"
        by (simp add: fs)
      with eq show ?thesis
        by (auto simp: fs)
    qed
  qed simp
qed simp

text \<open>Agreement at one position carries over to everything before it.\<close>

lemma same_prefix:
  assumes "chain g es" "chain g' fs" "i < length es" "i < length fs"
    and "hash_of (es ! i) = hash_of (fs ! i)"
  shows "broken \<or> map content (take (Suc i) es) = map content (take (Suc i) fs)"
proof -
  have "last (take (Suc i) es) = es ! i" "last (take (Suc i) fs) = fs ! i"
    using assms(3,4) by (simp_all add: take_Suc_conv_app_nth)
  with assms have "broken \<or> map content (take (Suc i) es) = map content (take (Suc i) fs) \<and> g = g'"
    by (intro same_head) (auto simp: linked_take)
  then show ?thesis
    by blast
qed

end

text \<open>A chain whose content includes a sequence number: its newest hash fixes its length too.\<close>

locale sequenced_chain = hash_chain +
  fixes seq_of :: "'a \<Rightarrow> i64"
  assumes seq_content: "content e = content f \<Longrightarrow> seq_of e = seq_of f"
begin

lemma same_newest:
  assumes "chain g es" "chain g' fs" "in_order seq_of es" "in_order seq_of fs"
    and "length es < 2 ^ 63" "length fs < 2 ^ 63" "es \<noteq> []" "fs \<noteq> []"
    and "hash_of (last es) = hash_of (last fs)"
  shows "broken \<or> map content es = map content fs"
proof (cases broken)
  case False
  have "sealed (last es)" "sealed (last fs)"
    using linked_sealed [OF assms(1)] linked_sealed [OF assms(2)] assms(7,8) by auto
  with False assms(9) have "seq_of (last es) = seq_of (last fs)"
    using binding seq_content by blast
  then have "int (length es - 1) + 1 = int (length fs - 1) + 1"
    using in_order_nth(2) [OF assms(3) _ assms(5), of "length es - 1"]
      in_order_nth(2) [OF assms(4) _ assms(6), of "length fs - 1"] assms(7,8)
    by (simp add: last_conv_nth)
  then have "length es = length fs"
    using assms(7,8) by (cases es; cases fs) auto
  with same_head [OF assms(1,2)] assms(7,9) show ?thesis
    by blast
qed simp

end

end
