(* ===== verification/Audit_Log.thy ===== *)
theory Audit_Log
  imports Hash_Chain
begin

text \<open>
  The tamper-evident audit log: \<^verbatim>\<open>server/internal/audit/audit.go\<close> (events, canonical
  encoding, sealing, verification), \<^verbatim>\<open>server/internal/audit/anchor.go\<close> (anchors) and the
  append path of \<^verbatim>\<open>server/internal/database/event_log.go\<close>.

  The event chain interprets the hash-chain contract. Shown: what the verification
  accepts, that the append path keeps the stored log verifiable whatever fails in
  between, that a verified log is determined by its newest hash, that an anchor pins
  all earlier history, and that the anchor check finds the anchored entry.
\<close>

section \<open>Events and their canonical encoding\<close>

record Event =
  ev_Seq :: i64
  ev_ID :: string
  ev_Timestamp :: time
  ev_Actor :: string
  ev_ActorName :: string
  ev_ActorRoles :: string
  ev_Action :: string
  ev_Tenant :: string
  ev_Target :: string
  ev_TargetName :: string
  ev_Result :: string
  ev_Detail :: string
  ev_IP :: string
  ev_RequestID :: string
  ev_PrevHash :: string
  ev_Hash :: string

definition GenesisHash :: string where
  "GenesisHash = replicate 64 (CHR ''0'')"

definition canonicalBytes :: "Event \<Rightarrow> string \<Rightarrow> byte list" where
  "canonicalBytes e prevHash =
     be64 (ev_Seq e) @ put_field prevHash @ put_field (ev_ID e) @
     put_field (rfc3339nano (ev_Timestamp e)) @
     put_field (ev_Actor e) @ put_field (ev_ActorName e) @ put_field (ev_ActorRoles e) @
     put_field (ev_Action e) @ put_field (ev_Target e) @ put_field (ev_TargetName e) @
     put_field (ev_Result e) @ put_field (ev_Detail e) @ put_field (ev_IP e) @
     (if ev_Tenant e \<noteq> '''' then put_field ''tenant'' @ put_field (ev_Tenant e) else [])"

definition ComputeHash :: "hash_fn \<Rightarrow> Event \<Rightarrow> string \<Rightarrow> string" where
  "ComputeHash sha256 e prevHash = hex_encode (sha256 (canonicalBytes e prevHash))"

definition Seal :: "hash_fn \<Rightarrow> Event \<Rightarrow> i64 \<Rightarrow> string \<Rightarrow> Event" where
  "Seal sha256 e seq prevHash =
     (let prevHash = (if prevHash = '''' then GenesisHash else prevHash);
          e = e\<lparr>ev_Seq := seq, ev_PrevHash := prevHash\<rparr>
      in e\<lparr>ev_Hash := ComputeHash sha256 e prevHash\<rparr>)"

section \<open>Verification of a chain\<close>

record VerifyResult =
  vr_Valid :: bool
  vr_Count :: nat
  vr_BrokenAtSeq :: i64
  vr_Reason :: string

fun verifyChainLoop ::
  "hash_fn \<Rightarrow> nat \<Rightarrow> nat \<Rightarrow> string \<Rightarrow> i64 \<Rightarrow> Event list \<Rightarrow> VerifyResult" where
  "verifyChainLoop sha256 n i prevHash prevSeq [] =
     \<lparr>vr_Valid = True, vr_Count = n, vr_BrokenAtSeq = 0, vr_Reason = ''''\<rparr>"
| "verifyChainLoop sha256 n i prevHash prevSeq (e # es) =
     (if i > 0 \<and> ev_Seq e \<noteq> prevSeq + 1 then
        \<lparr>vr_Valid = False, vr_Count = n, vr_BrokenAtSeq = ev_Seq e,
         vr_Reason = ''non-contiguous sequence: expected '' @ dec_int (sint (prevSeq + 1)) @
                     '', got '' @ dec_int (sint (ev_Seq e))\<rparr>
      else if i > 0 \<and> ev_PrevHash e \<noteq> prevHash then
        \<lparr>vr_Valid = False, vr_Count = n, vr_BrokenAtSeq = ev_Seq e,
         vr_Reason = ''prev_hash does not match preceding entry''\<rparr>
      else if \<not> equal_fold (ComputeHash sha256 e (ev_PrevHash e)) (ev_Hash e) then
        \<lparr>vr_Valid = False, vr_Count = n, vr_BrokenAtSeq = ev_Seq e,
         vr_Reason = ''content hash mismatch (entry was modified)''\<rparr>
      else verifyChainLoop sha256 n (Suc i) (ev_Hash e) (ev_Seq e) es)"

definition VerifyChain :: "hash_fn \<Rightarrow> Event list \<Rightarrow> VerifyResult" where
  "VerifyChain sha256 events = verifyChainLoop sha256 (length events) 0 GenesisHash 0 events"

definition VerifyFullChain :: "hash_fn \<Rightarrow> Event list \<Rightarrow> VerifyResult" where
  "VerifyFullChain sha256 events =
     (case events of
        [] \<Rightarrow> VerifyChain sha256 events
      | first # _ \<Rightarrow>
          if ev_Seq first \<noteq> 1 \<or> \<not> equal_fold (ev_PrevHash first) GenesisHash then
            \<lparr>vr_Valid = False, vr_Count = length events, vr_BrokenAtSeq = ev_Seq first,
             vr_Reason = ''log does not start at the genesis entry (seq 1); head entries may have been deleted''\<rparr>
          else VerifyChain sha256 events)"

section \<open>The event log table\<close>

text \<open>
  The table \<^verbatim>\<open>event_log\<close> as its rows in insertion order; \<^verbatim>\<open>seq\<close> is the primary key. A
  database call may fail, which the argument \<open>io\<close> decides; the transaction then
  leaves the table as it was.
\<close>

datatype db_error = DbFailure | PrimaryKeyConflict

definition last_row :: "Event list \<Rightarrow> Event option" where
  "last_row event_log = newest_by ev_Seq event_log"

definition AppendEvent ::
  "hash_fn \<Rightarrow> bool \<Rightarrow> time \<Rightarrow> Event \<Rightarrow> Event list \<Rightarrow> (db_error, Event) result \<times> Event list" where
  "AppendEvent sha256 io now e event_log =
     (let e = (if ev_Timestamp e = zero_time then e\<lparr>ev_Timestamp := now\<rparr> else e);
          e = e\<lparr>ev_Timestamp := trunc_micro (ev_Timestamp e)\<rparr>
      in if \<not> io then (Inl DbFailure, event_log)
         else
           let (nextSeq, prevHash) =
                 (case last_row event_log of
                    None \<Rightarrow> (1, GenesisHash)
                  | Some r \<Rightarrow> (ev_Seq r + 1, ev_Hash r));
               e = Seal sha256 e nextSeq prevHash
           in if ev_Seq e \<in> set (map ev_Seq event_log) then (Inl PrimaryKeyConflict, event_log)
              else (Inr e, event_log @ [e]))"

definition ListAllEventsAsc :: "Event list \<Rightarrow> Event list" where
  "ListAllEventsAsc event_log = sort_key (\<lambda>e. sint (ev_Seq e)) event_log"

section \<open>Anchors\<close>

record Anchor =
  an_ID :: string
  an_Seq :: i64
  an_HeadHash :: string
  an_Token :: "byte list"
  an_TSASource :: string
  an_GenTime :: time
  an_CreatedAt :: time

definition AnchorMessage :: "i64 \<Rightarrow> string \<Rightarrow> byte list" where
  "AnchorMessage seq headHash =
     str_bytes (''secsy-pki-audit-anchor-v1'' @ [CHR 0x0A] @ ''seq='' @ dec_int (sint seq) @
       [CHR 0x0A] @ ''head='' @ to_lower headHash @ [CHR 0x0A])"

definition AnchorDigest :: "hash_fn \<Rightarrow> i64 \<Rightarrow> string \<Rightarrow> byte list" where
  "AnchorDigest sha256 seq headHash = sha256 (AnchorMessage seq headHash)"

datatype anchor_error =
  AnchorInvalidSeq | AnchorLogEmpty | AnchorLogTruncated | AnchorSeqMissing | AnchorHashMismatch

definition CheckAnchorAgainstChain :: "Event list \<Rightarrow> Anchor \<Rightarrow> anchor_error option" where
  "CheckAnchorAgainstChain events a =
     (if sint (an_Seq a) \<le> 0 then Some AnchorInvalidSeq
      else if length events = 0 then Some AnchorLogEmpty
      else if sint (ev_Seq (events ! (length events - 1))) < sint (an_Seq a) then Some AnchorLogTruncated
      else
        let i = sort_search (length events) (\<lambda>i. sint (an_Seq a) \<le> sint (ev_Seq (events ! i))) in
        if i \<ge> length events \<or> ev_Seq (events ! i) \<noteq> an_Seq a then Some AnchorSeqMissing
        else if \<not> equal_fold (ev_Hash (events ! i)) (an_HeadHash a) then Some AnchorHashMismatch
        else None)"

section \<open>What the encoding binds\<close>

definition event_fields :: "Event \<Rightarrow> string list" where
  "event_fields e = [ev_ID e, rfc3339nano (ev_Timestamp e), ev_Actor e, ev_ActorName e,
     ev_ActorRoles e, ev_Action e, ev_Target e, ev_TargetName e, ev_Result e, ev_Detail e,
     ev_IP e, ev_Tenant e]"

definition event_content :: "Event \<Rightarrow> i64 \<times> string list" where
  "event_content e = (ev_Seq e, event_fields e)"

definition event_fits :: "Event \<Rightarrow> bool" where
  "event_fits e \<longleftrightarrow> list_all field_ok (ev_PrevHash e # event_fields e)"

definition event_sealed :: "hash_fn \<Rightarrow> Event \<Rightarrow> bool" where
  "event_sealed sha256 e \<longleftrightarrow>
     event_fits e \<and> equal_fold (ComputeHash sha256 e (ev_PrevHash e)) (ev_Hash e)"

lemma canonicalBytes_inj:
  assumes "canonicalBytes e p = canonicalBytes f q"
    and "list_all field_ok (p # event_fields e)" "list_all field_ok (q # event_fields f)"
  shows "event_content e = event_content f \<and> p = q"
proof -
  have tenant: "ev_Tenant e = ev_Tenant f"
    if "(if ev_Tenant e \<noteq> '''' then put_field ''tenant'' @ put_field (ev_Tenant e) else []) =
        (if ev_Tenant f \<noteq> '''' then put_field ''tenant'' @ put_field (ev_Tenant f) else [])"
    using that assms(2,3)
    by (auto simp: put_field_append_eq put_field_inj event_fields_def split: if_splits)
  show ?thesis
    using assms tenant
    by (simp add: canonicalBytes_def event_fields_def event_content_def put_field_append_eq)
qed

interpretation ev: sequenced_chain "\<lambda>e. to_lower (ev_PrevHash e)" "\<lambda>e. to_lower (ev_Hash e)"
  event_content "event_sealed sha256" "collision sha256" ev_Seq for sha256
proof
  show "ev_Seq e = ev_Seq f" if "event_content e = event_content f" for e f
    using that by (simp add: event_content_def)
next
  fix e f
  assume "event_sealed sha256 e" "event_sealed sha256 f" "to_lower (ev_Hash e) = to_lower (ev_Hash f)"
  then have "hex_encode (sha256 (canonicalBytes e (ev_PrevHash e))) =
      hex_encode (sha256 (canonicalBytes f (ev_PrevHash f)))"
    and fit: "event_fits e" "event_fits f"
    by (simp_all add: event_sealed_def equal_fold_def ComputeHash_def)
  then have "sha256 (canonicalBytes e (ev_PrevHash e)) = sha256 (canonicalBytes f (ev_PrevHash f))"
    by (simp add: hex_encode_inj)
  then have "collision sha256 \<or> canonicalBytes e (ev_PrevHash e) = canonicalBytes f (ev_PrevHash f)"
    by (rule collision_or_eq)
  then show "collision sha256 \<or> event_content e = event_content f \<and>
      to_lower (ev_PrevHash e) = to_lower (ev_PrevHash f)"
    using canonicalBytes_inj fit unfolding event_fits_def by metis
qed


section \<open>What a verified chain is\<close>

lemma equal_fold_Genesis: "equal_fold s GenesisHash \<longleftrightarrow> s = GenesisHash"
proof -
  have zero: "lower_char c = CHR ''0'' \<longleftrightarrow> c = CHR ''0''" for c
  proof
    assume "lower_char c = CHR ''0''"
    then have "(of_char (lower_char c) :: nat) = 48" by simp
    then have "(of_char c :: nat) = 48"
      by (simp add: lower_char_def Let_def split: if_splits)
    then have "(of_char c :: nat) = of_char (CHR ''0'')" by simp
    then show "c = CHR ''0''"
      by (simp only: of_char_eq_iff)
  qed (simp add: lower_char_def)
  have "to_lower s = replicate n (CHR ''0'') \<longleftrightarrow> s = replicate n (CHR ''0'')" for n
    by (induction n arbitrary: s) (auto simp: to_lower_def zero Cons_eq_map_conv map_eq_Cons_conv)
  moreover have "to_lower GenesisHash = GenesisHash"
    by (simp add: to_lower_def GenesisHash_def zero)
  ultimately show ?thesis
    by (simp add: equal_fold_def GenesisHash_def)
qed

abbreviation raw_chain :: "hash_fn \<Rightarrow> string \<Rightarrow> Event list \<Rightarrow> bool" where
  "raw_chain sha256 \<equiv> linked ev_PrevHash ev_Hash
     (\<lambda>e. equal_fold (ComputeHash sha256 e (ev_PrevHash e)) (ev_Hash e))"

lemma verifyChainLoop_valid:
  "vr_Valid (verifyChainLoop sha256 n (Suc i) prevHash prevSeq es) \<longleftrightarrow>
     (\<forall>k<length es. ev_Seq (es ! k) = prevSeq + word_of_nat (Suc k)) \<and> raw_chain sha256 prevHash es"
proof (induction es arbitrary: i prevHash prevSeq)
  case (Cons e es)
  have "(\<forall>k<length (e # es). ev_Seq ((e # es) ! k) = prevSeq + word_of_nat (Suc k)) \<longleftrightarrow>
      ev_Seq e = prevSeq + 1 \<and> (\<forall>k<length es. ev_Seq (es ! k) = (prevSeq + 1) + word_of_nat (Suc k))"
    by (auto simp: less_Suc_eq_0_disj ac_simps)
  then show ?case
    by (auto simp: Cons.IH)
qed simp

lemma VerifyFullChain_raw:
  "vr_Valid (VerifyFullChain sha256 es) \<longleftrightarrow> in_order ev_Seq es \<and> raw_chain sha256 GenesisHash es"
proof (cases es)
  case (Cons e fs)
  have "in_order ev_Seq (e # fs) \<longleftrightarrow>
    ev_Seq e = 1 \<and> (\<forall>k<length fs. ev_Seq (fs ! k) = 1 + word_of_nat (Suc k))"
    by (auto simp: in_order_def less_Suc_eq_0_disj ac_simps)
  then show ?thesis
    unfolding Cons
    by (auto simp: VerifyFullChain_def VerifyChain_def verifyChainLoop_valid equal_fold_Genesis)
qed (simp add: VerifyFullChain_def VerifyChain_def)

lemma VerifyFullChain_spec:
  "vr_Valid (VerifyFullChain sha256 es) \<longleftrightarrow>
     (\<forall>i<length es.
        ev_Seq (es ! i) = word_of_nat (i + 1) \<and>
        ev_PrevHash (es ! i) = (if i = 0 then GenesisHash else ev_Hash (es ! (i - 1))) \<and>
        equal_fold (ComputeHash sha256 (es ! i) (ev_PrevHash (es ! i))) (ev_Hash (es ! i)))"
  unfolding VerifyFullChain_raw in_order_def linked_nth by blast

text \<open>
  \<^verbatim>\<open>VerifyFullChain\<close> accepts exactly the complete, untampered logs: the entry at
  position \<open>i\<close> carries sequence number \<open>i + 1\<close>, links to the hash of its predecessor
  (the genesis hash for the first) and its stored hash re-derives from its content.
\<close>

theorem VerifyFullChain_iff:
  "vr_Valid (VerifyFullChain sha256 es) \<longleftrightarrow>
     (\<forall>i<length es.
        ev_Seq (es ! i) = word_of_nat (i + 1) \<and>
        ev_PrevHash (es ! i) = (if i = 0 then GenesisHash else ev_Hash (es ! (i - 1))) \<and>
        equal_fold (ComputeHash sha256 (es ! i) (ev_PrevHash (es ! i))) (ev_Hash (es ! i)))"
  by (rule VerifyFullChain_spec)

lemma full_chain_linked:
  assumes "vr_Valid (VerifyFullChain sha256 es)" "list_all event_fits es"
  shows "ev.chain sha256 (to_lower GenesisHash) es"
proof (rule linked_image [where f = to_lower])
  show "raw_chain sha256 GenesisHash es"
    using assms(1) by (simp add: VerifyFullChain_raw)
qed (use assms(2) in \<open>auto simp: event_sealed_def list_all_iff\<close>)

text \<open>Positions and sequence numbers agree in a verified log.\<close>

lemma full_chain_seq:
  assumes "vr_Valid (VerifyFullChain sha256 es)" "i < length es" "length es < 2 ^ 63"
  shows "ev_Seq (es ! i) = word_of_nat (i + 1)" "sint (ev_Seq (es ! i)) = int i + 1"
  using in_order_nth [OF _ assms(2,3)] assms(1) by (simp_all add: VerifyFullChain_raw)

lemma full_chain_seq_mono:
  assumes "vr_Valid (VerifyFullChain sha256 es)" "length es < 2 ^ 63" "a \<le> b" "b < length es"
  shows "sint (ev_Seq (es ! a)) \<le> sint (ev_Seq (es ! b))"
  using in_order_mono [OF _ assms(2-4)] assms(1) by (simp add: VerifyFullChain_raw)

lemma CheckAnchor_spec:
  assumes valid: "vr_Valid (VerifyFullChain sha256 es)" and len: "length es < 2 ^ 63"
  shows "CheckAnchorAgainstChain es a = None \<longleftrightarrow>
    1 \<le> sint (an_Seq a) \<and> sint (an_Seq a) \<le> int (length es) \<and>
    equal_fold (ev_Hash (es ! (nat (sint (an_Seq a)) - 1))) (an_HeadHash a)"
proof (cases "1 \<le> sint (an_Seq a) \<and> sint (an_Seq a) \<le> int (length es)")
  case True
  define m where "m = nat (sint (an_Seq a)) - 1"
  have m: "m < length es" "sint (an_Seq a) = int m + 1"
    using True by (auto simp: m_def)
  note seq = full_chain_seq(2) [OF valid _ len]
  have "sort_search (length es) (\<lambda>i. sint (an_Seq a) \<le> sint (ev_Seq (es ! i))) = m"
  proof (rule sort_search_eqI)
    fix k assume "k < m"
    then show "\<not> sint (an_Seq a) \<le> sint (ev_Seq (es ! k))"
      using seq [of k] m by simp
  qed (use full_chain_seq_mono [OF valid len] seq m in \<open>auto intro: order_trans\<close>)
  moreover have "ev_Seq (es ! m) = an_Seq a"
    using seq [of m] m by (simp add: sint_eq_iff flip: sint_eq_iff [of "ev_Seq (es ! m)"])
  moreover have "sint (ev_Seq (es ! (length es - 1))) = int (length es)"
    using seq [of "length es - 1"] m(1) by simp
  moreover have "nat (int m + 1) - Suc 0 = m"
    by simp
  ultimately show ?thesis
    using True m by (auto simp: CheckAnchorAgainstChain_def Let_def)
next
  case False
  then show ?thesis
    using full_chain_seq(2) [OF valid _ len, of "length es - 1"]
    by (auto simp: CheckAnchorAgainstChain_def)
qed
text \<open>
  C40. On a verified log the anchor check succeeds exactly when the anchored position
  exists and the hash stored there is the anchored head hash: the binary search finds
  the entry whenever it is present.
\<close>

theorem CheckAnchorAgainstChain_iff:
  assumes "vr_Valid (VerifyFullChain sha256 es)" "length es < 2 ^ 63"
  shows "CheckAnchorAgainstChain es a = None \<longleftrightarrow>
    1 \<le> sint (an_Seq a) \<and> sint (an_Seq a) \<le> int (length es) \<and>
    equal_fold (ev_Hash (es ! (nat (sint (an_Seq a)) - 1))) (an_HeadHash a)"
  by (rule CheckAnchor_spec [OF assms])



text \<open>
  The message an anchor's timestamp token covers determines the anchored sequence
  number and the head hash up to letter case.
\<close>

theorem AnchorMessage_inj:
  "AnchorMessage s h = AnchorMessage t k \<longleftrightarrow> s = t \<and> equal_fold h k"
proof
  let ?nl = "CHR 0x0A"
  assume "AnchorMessage s h = AnchorMessage t k"
  then have eq: "dec_int (sint s) @ [?nl] @ ''head='' @ to_lower h @ [?nl] =
      dec_int (sint t) @ [?nl] @ ''head='' @ to_lower k @ [?nl]"
    by (simp add: AnchorMessage_def str_bytes_inj)
  have nl: "?nl \<notin> set (dec_int i)" for i
    using dec_int_chars [of ?nl i] by auto
  have "char_index (dec_int (sint s) @ [?nl] @ ''head='' @ to_lower h @ [?nl]) ?nl =
      char_index (dec_int (sint t) @ [?nl] @ ''head='' @ to_lower k @ [?nl]) ?nl"
    by (simp only: eq)
  then have "length (dec_int (sint s)) = length (dec_int (sint t))"
    using nl by (simp add: char_index_append)
  with eq have "dec_int (sint s) = dec_int (sint t)" "to_lower h = to_lower k"
    by simp_all
  then show "s = t \<and> equal_fold h k"
    by (simp add: dec_int_inj sint_eq_iff equal_fold_def)
qed (simp add: AnchorMessage_def equal_fold_def)

section \<open>Appending\<close>

lemma Seal_hash: "equal_fold (ComputeHash H (Seal H e n p) (ev_PrevHash (Seal H e n p))) (ev_Hash (Seal H e n p))"
  by (simp add: Seal_def Let_def ComputeHash_def canonicalBytes_def)

lemma VerifyFullChain_snoc:
  "vr_Valid (VerifyFullChain sha256 (es @ [e])) \<longleftrightarrow>
     vr_Valid (VerifyFullChain sha256 es) \<and> ev_Seq e = word_of_nat (length es + 1) \<and>
     ev_PrevHash e = (if es = [] then GenesisHash else ev_Hash (last es)) \<and>
     equal_fold (ComputeHash sha256 e (ev_PrevHash e)) (ev_Hash e)"
  unfolding VerifyFullChain_raw by auto

text \<open>The invariant of the table: its rows, in insertion order, are a verified log.\<close>

definition log_ok :: "hash_fn \<Rightarrow> Event list \<Rightarrow> bool" where
  "log_ok sha256 rows \<longleftrightarrow> vr_Valid (VerifyFullChain sha256 rows) \<and> length rows < 2 ^ 63 \<and>
     list_all (\<lambda>r. ev_Hash r \<noteq> '''') rows"

lemma log_ok_sorted:
  assumes "log_ok sha256 rows"
  shows "ListAllEventsAsc rows = rows"
  using assms by (simp add: log_ok_def ListAllEventsAsc_def in_order_sorted VerifyFullChain_raw)

text \<open>The event as it is sealed: a missing timestamp is set, then cut to microseconds.\<close>

definition stamped :: "time \<Rightarrow> Event \<Rightarrow> Event" where
  "stamped now e =
     e\<lparr>ev_Timestamp := trunc_micro (if ev_Timestamp e = zero_time then now else ev_Timestamp e)\<rparr>"

definition next_event :: "hash_fn \<Rightarrow> time \<Rightarrow> Event \<Rightarrow> Event list \<Rightarrow> Event" where
  "next_event sha256 now e rows = Seal sha256 (stamped now e) (word_of_nat (length rows + 1))
      (if rows = [] then GenesisHash else ev_Hash (last rows))"

lemma Seal_Seq [simp]: "ev_Seq (Seal sha256 e n p) = n"
  by (simp add: Seal_def Let_def)

lemma Seal_keeps:
  "event_fields (Seal sha256 e n p) = event_fields e" "ev_RequestID (Seal sha256 e n p) = ev_RequestID e"
  by (simp_all add: Seal_def Let_def event_fields_def)

lemma AppendEvent_alt:
  "AppendEvent sha256 io now e rows =
     (if \<not> io then (Inl DbFailure, rows)
      else
        let (n, p) = (case last_row rows of None \<Rightarrow> (1, GenesisHash) | Some r \<Rightarrow> (ev_Seq r + 1, ev_Hash r));
            e' = Seal sha256 (stamped now e) n p
        in if n \<in> ev_Seq ` set rows then (Inl PrimaryKeyConflict, rows) else (Inr e', rows @ [e']))"
proof -
  have st: "stamped now e = (if ev_Timestamp e = zero_time then e\<lparr>ev_Timestamp := now\<rparr> else e)
      \<lparr>ev_Timestamp := trunc_micro (ev_Timestamp
        (if ev_Timestamp e = zero_time then e\<lparr>ev_Timestamp := now\<rparr> else e))\<rparr>"
    by (simp add: stamped_def)
  show ?thesis
    unfolding AppendEvent_def Let_def st [symmetric] by (simp only: split_beta Seal_Seq set_map)
qed

lemma AppendEvent_ok:
  assumes "\<And>m. sha256 m \<noteq> []" "log_ok sha256 rows" "length rows + 1 < 2 ^ 63"
    and e'_def: "e' = next_event sha256 now e rows"
  shows "AppendEvent sha256 True now e rows = (Inr e', rows @ [e'])" "log_ok sha256 (rows @ [e'])"
proof -
  note e'_def = e'_def [unfolded next_event_def]
  have valid: "vr_Valid (VerifyFullChain sha256 rows)" and len: "length rows < 2 ^ 63"
    and ne: "list_all (\<lambda>r. ev_Hash r \<noteq> '''') rows"
    using assms(2) by (auto simp: log_ok_def)
  have ord: "in_order ev_Seq rows"
    using valid by (simp add: VerifyFullChain_raw)
  have last: "last_row rows = (if rows = [] then None else Some (last rows))"
    using in_order_newest [OF ord len] by (simp add: last_row_def)
  note fresh = in_order_next(1) [OF ord assms(3)] and seq = in_order_next(2) [OF ord assms(3)]
  have nx: "(case last_row rows of None \<Rightarrow> (1, GenesisHash) | Some r \<Rightarrow> (ev_Seq r + 1, ev_Hash r)) =
      (word_of_nat (length rows + 1), if rows = [] then GenesisHash else ev_Hash (last rows))"
    using last seq by (cases "rows = []") simp_all
  show app: "AppendEvent sha256 True now e rows = (Inr e', rows @ [e'])"
    using fresh unfolding AppendEvent_alt nx e'_def by (simp add: Let_def)
  have e': "ev_Seq e' = word_of_nat (length rows + 1)" "ev_Hash e' \<noteq> ''''"
    "ev_PrevHash e' = (if rows = [] then GenesisHash else ev_Hash (last rows))"
    using assms(1) ne last_in_set [of rows] hex_encode_inj [of _ "[]"]
    by (auto simp: e'_def Seal_def Let_def ComputeHash_def GenesisHash_def list_all_iff)
  have hash: "equal_fold (ComputeHash sha256 e' (ev_PrevHash e')) (ev_Hash e')"
    unfolding e'_def by (rule Seal_hash)
  show "log_ok sha256 (rows @ [e'])"
    using valid ne e' assms(3) hash
    unfolding log_ok_def VerifyFullChain_snoc by simp
qed

text \<open>A run of the append path: each request with its database outcome and clock.\<close>

definition append_all :: "hash_fn \<Rightarrow> (bool \<times> time \<times> Event) list \<Rightarrow> Event list \<Rightarrow> Event list" where
  "append_all sha256 reqs rows =
     foldl (\<lambda>rows (io, now, e). snd (AppendEvent sha256 io now e rows)) rows reqs"

lemma append_all_log_ok:
  assumes "\<And>m. sha256 m \<noteq> []"
  shows "log_ok sha256 rows \<Longrightarrow> length rows + length reqs < 2 ^ 63 \<Longrightarrow> log_ok sha256 (append_all sha256 reqs rows)"
proof (induction reqs arbitrary: rows)
  case (Cons r reqs)
  obtain io now e where r: "r = (io, now, e)"
    by (cases r)
  define rows' where "rows' = snd (AppendEvent sha256 io now e rows)"
  have "log_ok sha256 rows' \<and> length rows' \<le> length rows + 1"
  proof (cases io)
    case True
    then show ?thesis
      using AppendEvent_ok [OF assms Cons.prems(1) _ refl] Cons.prems(2) by (simp add: rows'_def)
  next
    case False
    then show ?thesis
      using Cons.prems(1) by (simp add: rows'_def AppendEvent_def Let_def)
  qed
  then have "log_ok sha256 (append_all sha256 reqs rows')"
    using Cons.prems(2) by (intro Cons.IH) auto
  then show ?case
    by (simp add: append_all_def r rows'_def)
qed (simp add: append_all_def)

text \<open>
  C17. Whatever is appended, in whatever order, with any database calls failing in
  between, the log read back in ascending order passes the full verification.
\<close>

theorem append_all_verifies:
  assumes "\<And>m. length (sha256 m) = 32" "length reqs < 2 ^ 63"
  shows "vr_Valid (VerifyFullChain sha256 (ListAllEventsAsc (append_all sha256 reqs [])))"
proof -
  have ne: "sha256 m \<noteq> []" for m
    using assms(1) [of m] by auto
  have "log_ok sha256 []"
    by (simp add: log_ok_def VerifyFullChain_spec)
  then have "log_ok sha256 (append_all sha256 reqs [])"
    using ne assms(2) by (intro append_all_log_ok) simp_all
  then show ?thesis
    by (simp add: log_ok_sorted) (simp add: log_ok_def)
qed

text \<open>
  A successful append adds exactly one entry at the end, numbered one past the
  newest, linked to its hash and carrying the caller's data; a failed one changes
  nothing.
\<close>

theorem AppendEvent_effect:
  assumes "\<And>m. length (sha256 m) = 32" "log_ok sha256 rows" "length rows + 1 < 2 ^ 63"
  shows "AppendEvent sha256 False now e rows = (Inl DbFailure, rows) \<and>
    (\<exists>e'. AppendEvent sha256 True now e rows = (Inr e', rows @ [e']) \<and> log_ok sha256 (rows @ [e']) \<and>
       ev_Seq e' = word_of_nat (length rows + 1) \<and>
       event_fields e' = event_fields (stamped now e) \<and> ev_RequestID e' = ev_RequestID e)"
proof -
  have ne: "sha256 m \<noteq> []" for m
    using assms(1) [of m] by auto
  have "event_fields (next_event sha256 now e rows) = event_fields (stamped now e)"
    "ev_RequestID (next_event sha256 now e rows) = ev_RequestID e"
    "ev_Seq (next_event sha256 now e rows) = word_of_nat (length rows + 1)"
    by (simp_all add: next_event_def Seal_keeps stamped_def)
  moreover have "AppendEvent sha256 False now e rows = (Inl DbFailure, rows)"
    by (simp add: AppendEvent_alt)
  ultimately show ?thesis
    using AppendEvent_ok [OF ne assms(2,3) refl, of now e] by blast
qed

section \<open>Concrete runs\<close>

text \<open>
  The runs below use the identity as an (injective) hash, or a constant 32-byte digest
  where only the length of a digest matters.
\<close>

definition demo_event :: "string \<Rightarrow> Event" where
  "demo_event act = \<lparr>ev_Seq = 0, ev_ID = ''e1'', ev_Timestamp = 0, ev_Actor = ''root'', ev_ActorName = '''',
     ev_ActorRoles = '''', ev_Action = act, ev_Tenant = ''acme'', ev_Target = '''', ev_TargetName = '''',
     ev_Result = ''success'', ev_Detail = '''', ev_IP = '''', ev_RequestID = '''', ev_PrevHash = '''', ev_Hash = ''''\<rparr>"

definition demo_first :: Event where
  "demo_first = Seal id (demo_event ''cert.issue'') 1 GenesisHash"

definition demo_second :: Event where
  "demo_second = Seal id (demo_event ''cert.revoke'') 2 (ev_Hash demo_first)"

lemma rfc3339nano_epoch: "rfc3339nano 0 = ''1970-01-01T00:00:00Z''"
  by code_simp

lemmas demo_defs = demo_first_def demo_second_def demo_event_def Seal_def Let_def ComputeHash_def
  GenesisHash_def canonicalBytes_def

lemma demo_hash_length: "0 < length (ev_Hash demo_first)" "length (ev_Hash demo_first) < 2 ^ 32"
  by (simp_all add: demo_defs rfc3339nano_epoch)

lemma demo_prev: "ev_PrevHash demo_first = GenesisHash" "ev_PrevHash demo_second = ev_Hash demo_first"
proof -
  show "ev_PrevHash demo_first = GenesisHash"
    by (simp add: demo_first_def Seal_def Let_def)
  have "ev_Hash demo_first \<noteq> ''''"
    using demo_hash_length by auto
  then show "ev_PrevHash demo_second = ev_Hash demo_first"
    by (simp add: demo_second_def Seal_def Let_def)
qed

lemma demo_valid:
  "vr_Valid (VerifyFullChain id [demo_first])" "vr_Valid (VerifyFullChain id [demo_first, demo_second])"
proof -
  have hash: "equal_fold (ComputeHash id demo_first (ev_PrevHash demo_first)) (ev_Hash demo_first)"
    "equal_fold (ComputeHash id demo_second (ev_PrevHash demo_second)) (ev_Hash demo_second)"
    unfolding demo_first_def demo_second_def by (rule Seal_hash)+
  have seq: "ev_Seq demo_first = 1" "ev_Seq demo_second = 2"
    by (simp_all add: demo_first_def demo_second_def)
  show "vr_Valid (VerifyFullChain id [demo_first])"
    using hash seq by (simp add: VerifyFullChain_raw in_order_def demo_prev)
  show "vr_Valid (VerifyFullChain id [demo_first, demo_second])"
    using hash seq by (simp add: VerifyFullChain_raw in_order_def demo_prev less_Suc_eq)
qed

lemma demo_fits: "event_fits demo_first" "event_fits demo_second"
  unfolding event_fits_def demo_prev
  using demo_hash_length
  by (simp_all add: GenesisHash_def demo_first_def demo_second_def Seal_keeps)
    (simp_all add: event_fields_def demo_event_def rfc3339nano_epoch)

definition demo_anchor :: Anchor where
  "demo_anchor = \<lparr>an_ID = ''a'', an_Seq = 1, an_HeadHash = ev_Hash demo_first, an_Token = [],
     an_TSASource = '''', an_GenTime = 0, an_CreatedAt = 0\<rparr>"

theorem VerifyFullChain_iff_witness: "vr_Valid (VerifyFullChain id [demo_first])"
  using demo_valid(1) by (simp only: VerifyFullChain_iff)

theorem CheckAnchorAgainstChain_iff_witness:
  "CheckAnchorAgainstChain [demo_first, demo_second] demo_anchor = None"
  by (subst CheckAnchorAgainstChain_iff [OF demo_valid(2)]) (simp_all add: demo_anchor_def)


lemma ComputeHash_RequestID: "ComputeHash sha256 (e\<lparr>ev_RequestID := r\<rparr>) p = ComputeHash sha256 e p"
  by (simp add: ComputeHash_def canonicalBytes_def)


theorem append_all_verifies_witness:
  "vr_Valid (VerifyFullChain (\<lambda>_. replicate 32 0) (ListAllEventsAsc
     (append_all (\<lambda>_. replicate 32 0) [(True, 7, demo_event ''cert.issue''), (False, 8, demo_event ''lost''),
        (True, 9, demo_event ''cert.revoke'')] [])))"
  by (rule append_all_verifies) simp_all

theorem AppendEvent_effect_witness:
  "\<exists>e'. AppendEvent (\<lambda>_. replicate 32 0) True 7 (demo_event ''cert.issue'') [] = (Inr e', [e']) \<and> ev_Seq e' = 1"
  using AppendEvent_effect [of "\<lambda>_. replicate 32 0" "[]" 7 "demo_event ''cert.issue''"]
  by (auto simp: log_ok_def VerifyFullChain_raw)

end
