(* ===== verification/RBAC.thy ===== *)
theory RBAC
  imports Secsy_Prelude "HOL-Library.Char_ord" "HOL-Library.List_Lexorder" "HOL-Library.Product_Lexorder"
    "HOL-Library.Multiset"
begin

text \<open>
  Roles, capabilities and resource-scoped grants: \<^verbatim>\<open>server/internal/rbac/rbac.go\<close> and
  \<^verbatim>\<open>server/internal/rbac/grant.go\<close>. Role, action and scope names are strings in the
  source, so an unknown name is an ordinary value here too. A Go map from names to
  lists is a partial map; where the code walks a map, the order of the walk is an
  argument.
\<close>

section \<open>Roles and actions\<close>

type_synonym Role = string
type_synonym Action = string

definition RoleAdmin :: Role where "RoleAdmin = ''admin''"
definition RoleIssuer :: Role where "RoleIssuer = ''issuer''"
definition RoleSigner :: Role where "RoleSigner = ''signer''"
definition RoleAuditor :: Role where "RoleAuditor = ''auditor''"
definition RoleApprover :: Role where "RoleApprover = ''approver''"

definition AllRoles :: "Role list" where
  "AllRoles = [RoleAdmin, RoleIssuer, RoleSigner, RoleAuditor, RoleApprover]"

definition ValidRole :: "Role \<Rightarrow> bool" where
  "ValidRole r \<longleftrightarrow> list_ex (\<lambda>k. k = r) AllRoles"

definition ActionIssue :: Action where "ActionIssue = ''cert:issue''"
definition ActionReadAudit :: Action where "ActionReadAudit = ''audit:read''"
definition ActionManageCA :: Action where "ActionManageCA = ''ca:manage''"
definition ActionConfigureCA :: Action where "ActionConfigureCA = ''ca:configure''"
definition ActionManageRBAC :: Action where "ActionManageRBAC = ''rbac:manage''"
definition ActionDelegate :: Action where "ActionDelegate = ''resource:delegate''"
definition ActionManageHSM :: Action where "ActionManageHSM = ''hsm:manage''"
definition ActionEncrypt :: Action where "ActionEncrypt = ''secret:encrypt''"
definition ActionDecrypt :: Action where "ActionDecrypt = ''secret:decrypt''"
definition ActionDataKey :: Action where "ActionDataKey = ''secret:datakey''"
definition ActionHMAC :: Action where "ActionHMAC = ''secret:hmac''"
definition ActionRandom :: Action where "ActionRandom = ''secret:random''"
definition ActionTransform :: Action where "ActionTransform = ''secret:transform''"
definition ActionSign :: Action where "ActionSign = ''secret:sign''"
definition ActionManageSigningKey :: Action where "ActionManageSigningKey = ''secret:signing-key''"
definition ActionManageEscrow :: Action where "ActionManageEscrow = ''secret:escrow''"
definition ActionRecover :: Action where "ActionRecover = ''secret:recover''"
definition ActionRotateKEK :: Action where "ActionRotateKEK = ''secret:rotate''"
definition ActionSignArtifact :: Action where "ActionSignArtifact = ''artifact:sign''"
definition ActionReadApproval :: Action where "ActionReadApproval = ''approval:read''"
definition ActionApprove :: Action where "ActionApprove = ''approval:approve''"
definition ActionManageTokens :: Action where "ActionManageTokens = ''token:manage''"
definition ActionManageWebhooks :: Action where "ActionManageWebhooks = ''webhook:manage''"
definition ActionProfile :: Action where "ActionProfile = ''server:profile''"

definition AllActions :: "Action list" where
  "AllActions = [ActionIssue, ActionReadAudit, ActionManageCA, ActionConfigureCA,
     ActionManageRBAC, ActionDelegate, ActionManageHSM,
     ActionEncrypt, ActionDecrypt, ActionDataKey, ActionHMAC, ActionRandom,
     ActionTransform, ActionSign, ActionManageSigningKey, ActionManageEscrow,
     ActionRecover, ActionRotateKEK, ActionSignArtifact,
     ActionReadApproval, ActionApprove, ActionManageTokens, ActionManageWebhooks,
     ActionProfile]"

definition roleActions :: "Role \<Rightarrow> Action list" where
  "roleActions role =
     (if role = RoleIssuer then
        [ActionIssue, ActionReadAudit, ActionEncrypt, ActionDecrypt, ActionDataKey, ActionHMAC,
         ActionRandom, ActionTransform, ActionSign]
      else if role = RoleSigner then [ActionSignArtifact, ActionReadAudit]
      else if role = RoleAuditor then [ActionReadAudit, ActionReadApproval]
      else if role = RoleApprover then [ActionReadApproval, ActionApprove, ActionReadAudit]
      else [])"

definition RoleGrants :: "Role \<Rightarrow> Action \<Rightarrow> bool" where
  "RoleGrants role action = (if role = RoleAdmin then True else action \<in> set (roleActions role))"

fun Can :: "Role list \<Rightarrow> Action \<Rightarrow> bool" where
  "Can [] action = False"
| "Can (r # rs) action = (if RoleGrants r action then True else Can rs action)"

fun HasRole :: "Role list \<Rightarrow> Role \<Rightarrow> bool" where
  "HasRole [] want = False"
| "HasRole (r # rs) want = (if r = want then True else HasRole rs want)"

definition IsPrivilegedRole :: "Role \<Rightarrow> bool" where
  "IsPrivilegedRole role =
     (if role = RoleAdmin then True
      else list_ex (\<lambda>action. \<not> (action = ActionReadAudit \<or> action = ActionReadApproval)) (roleActions role))"

fun AnyPrivilegedRole :: "Role list \<Rightarrow> bool" where
  "AnyPrivilegedRole [] = False"
| "AnyPrivilegedRole (r # rs) = (if IsPrivilegedRole r then True else AnyPrivilegedRole rs)"

section \<open>Assignments\<close>

record Assignments =
  bySubject :: "string \<rightharpoonup> Role list"
  byGroup :: "string \<rightharpoonup> Role list"

definition filterRoles :: "(string \<rightharpoonup> Role list) \<Rightarrow> (string \<rightharpoonup> Role list)" where
  "filterRoles m k =
     (case m k of
        None \<Rightarrow> None
      | Some roles \<Rightarrow> let valid = filter ValidRole roles in if length valid > 0 then Some valid else None)"

definition NewAssignments :: "(string \<rightharpoonup> Role list) \<Rightarrow> (string \<rightharpoonup> Role list) \<Rightarrow> Assignments" where
  "NewAssignments subj grp = \<lparr>bySubject = filterRoles subj, byGroup = filterRoles grp\<rparr>"

text \<open>Reading a missing key of a Go map yields the empty list.\<close>

definition lookup :: "('k \<rightharpoonup> 'v list) \<Rightarrow> 'k \<Rightarrow> 'v list" where
  "lookup m k = (case m k of None \<Rightarrow> [] | Some v \<Rightarrow> v)"

text \<open>The closure \<^verbatim>\<open>add\<close>: append what has not been seen yet.\<close>

fun addRoles :: "'a list \<Rightarrow> 'a list \<Rightarrow> 'a list" where
  "addRoles out [] = out"
| "addRoles out (r # rs) = addRoles (if r \<in> set out then out else out @ [r]) rs"

definition Assignments_RolesFor :: "Assignments option \<Rightarrow> string \<Rightarrow> string list \<Rightarrow> Role list" where
  "Assignments_RolesFor a subject groupIDs =
     (case a of
        None \<Rightarrow> []
      | Some a \<Rightarrow> foldl (\<lambda>out g. addRoles out (lookup (byGroup a) g))
                    (addRoles [] (lookup (bySubject a) subject)) groupIDs)"

definition Assignments_Empty :: "Assignments option \<Rightarrow> bool" where
  "Assignments_Empty a =
     (case a of None \<Rightarrow> True | Some a \<Rightarrow> dom (bySubject a) = {} \<and> dom (byGroup a) = {})"

definition rolesFor :: "Assignments option \<Rightarrow> string \<Rightarrow> string \<Rightarrow> bool \<Rightarrow> string list \<Rightarrow> Role list" where
  "rolesFor a subject email emailVerified groupIDs =
     (case a of
        None \<Rightarrow> []
      | Some _ \<Rightarrow>
          let roles = Assignments_RolesFor a subject groupIDs;
              roles = (if email \<noteq> '''' \<and> emailVerified
                       then roles @ Assignments_RolesFor a email [] else roles)
          in addRoles [] roles)"

record TenantAssignments =
  ta_platform :: "Assignments option"
  ta_byTenant :: "string \<rightharpoonup> Assignments"

definition NewTenantAssignments ::
  "Assignments option \<Rightarrow> (string \<rightharpoonup> Assignments option) \<Rightarrow> TenantAssignments" where
  "NewTenantAssignments platform byTenant =
     \<lparr>ta_platform = platform, ta_byTenant = (\<lambda>k. case byTenant k of Some (Some v) \<Rightarrow> Some v | _ \<Rightarrow> None)\<rparr>"

definition Platform :: "TenantAssignments option \<Rightarrow> Assignments option" where
  "Platform ta = (case ta of None \<Rightarrow> None | Some ta \<Rightarrow> ta_platform ta)"

definition PlatformRolesFor ::
  "TenantAssignments option \<Rightarrow> string \<Rightarrow> string \<Rightarrow> bool \<Rightarrow> string list \<Rightarrow> Role list" where
  "PlatformRolesFor ta subject email emailVerified groupIDs =
     (case ta of None \<Rightarrow> [] | Some ta \<Rightarrow> rolesFor (ta_platform ta) subject email emailVerified groupIDs)"

definition TenantRolesFor ::
  "TenantAssignments option \<Rightarrow> string \<Rightarrow> string \<Rightarrow> string \<Rightarrow> bool \<Rightarrow> string list \<Rightarrow> Role list" where
  "TenantRolesFor ta tenantID subject email emailVerified groupIDs =
     (case ta of None \<Rightarrow> []
      | Some ta \<Rightarrow> rolesFor (ta_byTenant ta tenantID) subject email emailVerified groupIDs)"

text \<open>The keys of the tenant map, in the order of the walk.\<close>

definition Tenants :: "string list \<Rightarrow> TenantAssignments option \<Rightarrow> string list" where
  "Tenants walk ta =
     (case ta of None \<Rightarrow> [] | Some ta \<Rightarrow> filter (\<lambda>t. ta_byTenant ta t \<noteq> None) walk)"

definition JoinRoles :: "Role list \<Rightarrow> string" where
  "JoinRoles roles = join_with '','' roles"

section \<open>Resources, resource roles and grants\<close>

type_synonym ResourceType = string
type_synonym ResourceRole = string
type_synonym GrantScope = string

definition ResourceCA :: ResourceType where "ResourceCA = ''ca''"
definition ResourceSigningKey :: ResourceType where "ResourceSigningKey = ''signing-key''"

definition AllResourceTypes :: "ResourceType list" where
  "AllResourceTypes = [ResourceCA, ResourceSigningKey]"

definition ValidResourceType :: "ResourceType \<Rightarrow> bool" where
  "ValidResourceType t \<longleftrightarrow> list_ex (\<lambda>k. k = t) AllResourceTypes"

record Resource =
  res_Type :: ResourceType
  res_ID :: string

definition Resource_String :: "Resource \<Rightarrow> string" where
  "Resource_String r = res_Type r @ ''/'' @ res_ID r"

definition Resource_Valid :: "Resource \<Rightarrow> bool" where
  "Resource_Valid r \<longleftrightarrow> ValidResourceType (res_Type r) \<and> res_ID r \<noteq> ''''"

datatype parse_error = NotTypeSlashId | UnknownResourceType | ControlCharacter nat

definition control_char :: "char \<Rightarrow> bool" where
  "control_char c \<longleftrightarrow> (let n = (of_char c :: nat) in n < 0x21 \<or> n = 0x7f)"

fun first_index :: "('a \<Rightarrow> bool) \<Rightarrow> 'a list \<Rightarrow> nat option" where
  "first_index P [] = None"
| "first_index P (x # xs) = (if P x then Some 0 else map_option Suc (first_index P xs))"

definition ParseResource :: "string \<Rightarrow> (parse_error, Resource) result" where
  "ParseResource s =
     (let s = trim_space s in
      case char_index s (CHR ''/'') of
        None \<Rightarrow> Inl NotTypeSlashId
      | Some i \<Rightarrow>
          let typ = take i s; rid = drop (i + 1) s in
          if typ = '''' \<or> rid = '''' then Inl NotTypeSlashId
          else if \<not> ValidResourceType typ then Inl UnknownResourceType
          else case first_index control_char rid of
            Some j \<Rightarrow> Inl (ControlCharacter j)
          | None \<Rightarrow> Inr \<lparr>res_Type = typ, res_ID = rid\<rparr>)"

definition ResourceRoleCAAdmin :: ResourceRole where "ResourceRoleCAAdmin = ''ca-admin''"
definition ResourceRoleCAManager :: ResourceRole where "ResourceRoleCAManager = ''ca-manager''"
definition ResourceRoleCAIssuer :: ResourceRole where "ResourceRoleCAIssuer = ''ca-issuer''"
definition ResourceRoleCAAuditor :: ResourceRole where "ResourceRoleCAAuditor = ''ca-auditor''"
definition ResourceRoleKeyAdmin :: ResourceRole where "ResourceRoleKeyAdmin = ''key-admin''"
definition ResourceRoleKeySigner :: ResourceRole where "ResourceRoleKeySigner = ''key-signer''"
definition ResourceRoleKeyAuditor :: ResourceRole where "ResourceRoleKeyAuditor = ''key-auditor''"

definition AllResourceRoles :: "ResourceRole list" where
  "AllResourceRoles = [ResourceRoleCAAdmin, ResourceRoleCAManager, ResourceRoleCAIssuer, ResourceRoleCAAuditor,
     ResourceRoleKeyAdmin, ResourceRoleKeySigner, ResourceRoleKeyAuditor]"

definition resourceRoleActions :: "ResourceRole \<Rightarrow> Action list option" where
  "resourceRoleActions role =
     (if role = ResourceRoleCAAdmin then
        Some [ActionManageCA, ActionConfigureCA, ActionIssue, ActionReadAudit, ActionDelegate]
      else if role = ResourceRoleCAManager then
        Some [ActionManageCA, ActionConfigureCA, ActionIssue, ActionReadAudit]
      else if role = ResourceRoleCAIssuer then Some [ActionIssue, ActionReadAudit]
      else if role = ResourceRoleCAAuditor then Some [ActionReadAudit]
      else if role = ResourceRoleKeyAdmin then
        Some [ActionManageSigningKey, ActionSign, ActionReadAudit, ActionDelegate]
      else if role = ResourceRoleKeySigner then Some [ActionSign, ActionReadAudit]
      else if role = ResourceRoleKeyAuditor then Some [ActionReadAudit]
      else None)"

definition resourceRoleTypes :: "ResourceRole \<Rightarrow> ResourceType list" where
  "resourceRoleTypes role =
     (if role \<in> set [ResourceRoleCAAdmin, ResourceRoleCAManager, ResourceRoleCAIssuer, ResourceRoleCAAuditor]
      then [ResourceCA]
      else if role \<in> set [ResourceRoleKeyAdmin, ResourceRoleKeySigner, ResourceRoleKeyAuditor]
      then [ResourceSigningKey]
      else [])"

definition ValidResourceRole :: "ResourceRole \<Rightarrow> bool" where
  "ValidResourceRole r \<longleftrightarrow> resourceRoleActions r \<noteq> None"

definition ResourceRoleAppliesTo :: "ResourceRole \<Rightarrow> ResourceType \<Rightarrow> bool" where
  "ResourceRoleAppliesTo role t \<longleftrightarrow> list_ex (\<lambda>k. k = t) (resourceRoleTypes role)"

definition ResourceRolesFor :: "ResourceType \<Rightarrow> ResourceRole list" where
  "ResourceRolesFor t = filter (\<lambda>r. ResourceRoleAppliesTo r t) AllResourceRoles"

definition ResourceRoleGrants :: "ResourceRole \<Rightarrow> Action \<Rightarrow> bool" where
  "ResourceRoleGrants role action =
     (case resourceRoleActions role of None \<Rightarrow> False | Some as \<Rightarrow> action \<in> set as)"

definition ResourceRoleActions :: "ResourceRole \<Rightarrow> Action list" where
  "ResourceRoleActions role = (case resourceRoleActions role of None \<Rightarrow> [] | Some as \<Rightarrow> sort as)"

definition ScopeSelf :: GrantScope where "ScopeSelf = ''self''"
definition ScopeSubtree :: GrantScope where "ScopeSubtree = ''subtree''"

definition ValidGrantScope :: "GrantScope \<Rightarrow> bool" where
  "ValidGrantScope s \<longleftrightarrow> s = ScopeSelf \<or> s = ScopeSubtree"

definition EntityUser :: string where "EntityUser = ''user''"
definition EntityGroup :: string where "EntityGroup = ''group''"

definition ValidEntityType :: "string \<Rightarrow> bool" where
  "ValidEntityType t \<longleftrightarrow> t = EntityUser \<or> t = EntityGroup"

record Grant =
  g_Resource :: Resource
  g_EntityType :: string
  g_EntityID :: string
  g_Role :: ResourceRole
  g_Scope :: GrantScope

datatype grant_error =
    InvalidResource | BadEntityType | EntityIDRequired | UnknownRole | RoleDoesNotApply
  | BadScope | SubtreeOnSigningKey

definition Grant_Validate :: "Grant \<Rightarrow> grant_error option" where
  "Grant_Validate g =
     (if \<not> Resource_Valid (g_Resource g) then Some InvalidResource
      else if \<not> ValidEntityType (g_EntityType g) then Some BadEntityType
      else if g_EntityID g = '''' then Some EntityIDRequired
      else if \<not> ValidResourceRole (g_Role g) then Some UnknownRole
      else if \<not> ResourceRoleAppliesTo (g_Role g) (res_Type (g_Resource g)) then Some RoleDoesNotApply
      else if g_Scope g \<noteq> '''' \<and> \<not> ValidGrantScope (g_Scope g) then Some BadScope
      else if g_Scope g = ScopeSubtree \<and> res_Type (g_Resource g) = ResourceSigningKey then Some SubtreeOnSigningKey
      else None)"

definition Normalized :: "Grant \<Rightarrow> Grant" where
  "Normalized g = (if g_Scope g = '''' then g\<lparr>g_Scope := ScopeSelf\<rparr> else g)"

definition Grant_Key :: "Grant \<Rightarrow> string" where
  "Grant_Key g = join_with ''|'' [Resource_String (g_Resource g), g_EntityType g, g_EntityID g, g_Role g]"

record Identity =
  id_Subject :: string
  id_Email :: string
  id_EmailVerified :: bool
  id_Groups :: "string list"

definition Matches :: "Identity \<Rightarrow> Grant \<Rightarrow> bool" where
  "Matches i g =
     (if g_EntityType g = EntityUser then
        (if g_EntityID g = '''' then False
         else if id_Subject i \<noteq> '''' \<and> g_EntityID g = id_Subject i then True
         else id_EmailVerified i \<and> id_Email i \<noteq> '''' \<and> equal_fold (g_EntityID g) (id_Email i))
      else if g_EntityType g = EntityGroup then list_ex (\<lambda>grp. grp = g_EntityID g) (id_Groups i)
      else False)"

type_synonym GrantSet = "string \<rightharpoonup> Grant list"

definition NewGrantSet :: "Grant list \<Rightarrow> GrantSet" where
  "NewGrantSet grants =
     foldl (\<lambda>gs g.
         let g = Normalized g in
         if Grant_Validate g \<noteq> None then gs
         else let k = Resource_String (g_Resource g) in gs(k \<mapsto> lookup gs k @ [g]))
       Map.empty grants"

definition GrantSet_Empty :: "GrantSet option \<Rightarrow> bool" where
  "GrantSet_Empty gs = (case gs of None \<Rightarrow> True | Some gs \<Rightarrow> dom gs = {})"

definition At :: "GrantSet option \<Rightarrow> Resource \<Rightarrow> Grant list" where
  "At gs res = (case gs of None \<Rightarrow> [] | Some gs \<Rightarrow> lookup gs (Resource_String res))"

fun collect :: "Identity \<Rightarrow> bool \<Rightarrow> Grant list \<Rightarrow> ResourceRole list \<Rightarrow> ResourceRole list" where
  "collect i subtreeOnly [] out = out"
| "collect i subtreeOnly (g # gs) out =
     (if subtreeOnly \<and> g_Scope g \<noteq> ScopeSubtree then collect i subtreeOnly gs out
      else if \<not> Matches i g \<or> g_Role g \<in> set out then collect i subtreeOnly gs out
      else collect i subtreeOnly gs (out @ [g_Role g]))"

definition GrantSet_RolesFor ::
  "GrantSet option \<Rightarrow> Resource \<Rightarrow> Resource list \<Rightarrow> Identity \<Rightarrow> ResourceRole list" where
  "GrantSet_RolesFor gs res ancestors i =
     (case gs of
        None \<Rightarrow> []
      | Some gs \<Rightarrow>
          foldl (\<lambda>out anc. collect i True (lookup gs (Resource_String anc)) out)
            (collect i False (lookup gs (Resource_String res)) []) ancestors)"

definition Allows :: "GrantSet option \<Rightarrow> Resource \<Rightarrow> Resource list \<Rightarrow> Identity \<Rightarrow> Action \<Rightarrow> bool" where
  "Allows gs res ancestors i action =
     (case gs of
        None \<Rightarrow> False
      | Some _ \<Rightarrow> list_ex (\<lambda>role. ResourceRoleGrants role action) (GrantSet_RolesFor gs res ancestors i))"

text \<open>\<^verbatim>\<open>sort.Slice\<close> with the comparison of the source is a sort by this tuple.\<close>

definition grant_order :: "Grant \<Rightarrow> string \<times> string \<times> string \<times> string \<times> string \<times> string" where
  "grant_order g = (res_Type (g_Resource g), res_ID (g_Resource g), g_EntityType g, g_EntityID g, g_Role g, g_Scope g)"

definition SortGrants :: "Grant list \<Rightarrow> Grant list" where
  "SortGrants gs = sort_key grant_order gs"

definition All_grants :: "string list \<Rightarrow> GrantSet option \<Rightarrow> Grant list" where
  "All_grants walk gs = (case gs of None \<Rightarrow> [] | Some gs \<Rightarrow> SortGrants (concat (map (lookup gs) walk)))"

fun resourcesLoop :: "ResourceType \<Rightarrow> Identity \<Rightarrow> Grant list \<Rightarrow> string list \<Rightarrow> string list" where
  "resourcesLoop t i [] out = out"
| "resourcesLoop t i (g # gs) out =
     (if res_Type (g_Resource g) \<noteq> t \<or> res_ID (g_Resource g) \<in> set out \<or> \<not> Matches i g
      then resourcesLoop t i gs out
      else resourcesLoop t i gs (out @ [res_ID (g_Resource g)]))"

definition ResourcesFor :: "string list \<Rightarrow> GrantSet option \<Rightarrow> ResourceType \<Rightarrow> Identity \<Rightarrow> string list" where
  "ResourcesFor walk gs t i =
     (case gs of
        None \<Rightarrow> []
      | Some gs \<Rightarrow> sort (foldl (\<lambda>out k. resourcesLoop t i (lookup gs k) out) [] walk))"

definition JoinResourceRoles :: "ResourceRole list \<Rightarrow> string" where
  "JoinResourceRoles roles = join_with '', '' roles"

lemmas role_defs = RoleAdmin_def RoleIssuer_def RoleSigner_def RoleAuditor_def RoleApprover_def
lemmas action_defs = ActionIssue_def ActionReadAudit_def ActionManageCA_def ActionConfigureCA_def ActionManageRBAC_def ActionDelegate_def ActionManageHSM_def ActionEncrypt_def ActionDecrypt_def ActionDataKey_def ActionHMAC_def ActionRandom_def ActionTransform_def ActionSign_def ActionManageSigningKey_def ActionManageEscrow_def ActionRecover_def ActionRotateKEK_def ActionSignArtifact_def ActionReadApproval_def ActionApprove_def ActionManageTokens_def ActionManageWebhooks_def ActionProfile_def
lemmas resource_role_defs = ResourceRoleCAAdmin_def ResourceRoleCAManager_def ResourceRoleCAIssuer_def ResourceRoleCAAuditor_def ResourceRoleKeyAdmin_def ResourceRoleKeySigner_def ResourceRoleKeyAuditor_def
lemmas grant_name_defs = ResourceCA_def ResourceSigningKey_def ScopeSelf_def ScopeSubtree_def EntityUser_def EntityGroup_def


section \<open>Capabilities of roles\<close>

lemma Can_iff: "Can roles action \<longleftrightarrow> (\<exists>r\<in>set roles. RoleGrants r action)"
  by (induction roles) auto

lemma HasRole_iff: "HasRole roles r \<longleftrightarrow> r \<in> set roles"
  by (induction roles) auto

lemma AnyPrivilegedRole_iff: "AnyPrivilegedRole roles \<longleftrightarrow> (\<exists>r\<in>set roles. IsPrivilegedRole r)"
  by (induction roles) auto

text \<open>The capabilities that no role but the administrator carries.\<close>

definition admin_only :: "Action list" where
  "admin_only = [ActionManageCA, ActionConfigureCA, ActionManageRBAC, ActionDelegate, ActionManageHSM,
     ActionManageSigningKey, ActionManageEscrow, ActionRecover, ActionRotateKEK, ActionManageTokens,
     ActionManageWebhooks, ActionProfile]"

lemma roleActions_not_admin_only: "list_all (\<lambda>a. a \<notin> set (roleActions role)) admin_only"
  unfolding admin_only_def roleActions_def by (simp add: action_defs)

text \<open>
  C35. The administrative capabilities (key management, break-glass recovery, tokens,
  delegation and so on) are held exactly by those role sets that contain the
  administrator role.
\<close>

theorem admin_only_actions:
  assumes "a \<in> set admin_only"
  shows "Can roles a \<longleftrightarrow> HasRole roles RoleAdmin"
  using assms roleActions_not_admin_only
  by (auto simp: Can_iff HasRole_iff RoleGrants_def list_all_iff split: if_splits)

theorem admin_only_actions_witness:
  "\<not> Can [RoleIssuer, RoleSigner, RoleAuditor, RoleApprover] ActionDelegate \<and> Can [RoleAuditor, RoleAdmin] ActionDelegate"
proof -
  have "ActionDelegate \<in> set admin_only" by (simp add: admin_only_def)
  from admin_only_actions [OF this] show ?thesis
    by (simp add: role_defs)
qed

text \<open>
  Separation of duties: no single role other than the administrator combines two
  of certificate issuance, artifact signing and approval.
\<close>

theorem separation_of_duties:
  assumes "role \<noteq> RoleAdmin"
  shows "length (filter (RoleGrants role) [ActionIssue, ActionSignArtifact, ActionApprove]) \<le> 1"
  using assms by (auto simp: RoleGrants_def roleActions_def action_defs)

theorem separation_of_duties_witness:
  "length (filter (RoleGrants RoleIssuer) [ActionIssue, ActionSignArtifact, ActionApprove]) \<le> 1"
  by (rule separation_of_duties) (simp add: role_defs)

text \<open>
  The privilege test used to decide when minting a token needs approval agrees
  with the capability model: a role set is privileged exactly when it permits
  something besides reading the audit log and the approval queue.
\<close>

theorem AnyPrivilegedRole_capability:
  "AnyPrivilegedRole roles \<longleftrightarrow>
     (\<exists>a. Can roles a \<and> a \<noteq> ActionReadAudit \<and> a \<noteq> ActionReadApproval)"
proof -
  have "IsPrivilegedRole r \<longleftrightarrow> (\<exists>a. RoleGrants r a \<and> a \<noteq> ActionReadAudit \<and> a \<noteq> ActionReadApproval)" for r
  proof (cases "r = RoleAdmin")
    case True
    have "ActionIssue \<noteq> ActionReadAudit" "ActionIssue \<noteq> ActionReadApproval"
      by (simp_all add: action_defs)
    with True show ?thesis
      by (auto simp: IsPrivilegedRole_def RoleGrants_def)
  qed (auto simp: IsPrivilegedRole_def RoleGrants_def list_ex_iff)
  then show ?thesis
    by (auto simp: AnyPrivilegedRole_iff Can_iff)
qed

section \<open>Assignments\<close>

lemma addRoles_set [simp]: "set (addRoles out rs) = set out \<union> set rs"
  by (induction out rs rule: addRoles.induct) auto

lemma addRoles_distinct: "distinct out \<Longrightarrow> distinct (addRoles out rs)"
  by (induction out rs rule: addRoles.induct) auto

lemma fold_addRoles_set:
  "set (foldl (\<lambda>out g. addRoles out (f g)) out gs) = set out \<union> (\<Union>g\<in>set gs. set (f g))"
  by (induction gs arbitrary: out) auto

lemma set_Assignments_RolesFor:
  "set (Assignments_RolesFor (Some a) s gs) =
     set (lookup (bySubject a) s) \<union> (\<Union>g\<in>set gs. set (lookup (byGroup a) g))"
  by (simp add: Assignments_RolesFor_def fold_addRoles_set)

lemma lookup_filterRoles: "lookup (filterRoles m) k = filter ValidRole (lookup m k)"
  by (auto simp: lookup_def filterRoles_def Let_def split: option.splits)

text \<open>
  The roles a principal resolves to are exactly the recognised roles assigned to
  its subject, to its verified e-mail address or to one of its groups, each listed
  once; an unverified e-mail address contributes nothing and a misspelt role is never
  granted.
\<close>

theorem rolesFor_exact:
  "distinct (rolesFor (Some (NewAssignments subj grp)) s email verified gs) \<and>
   (r \<in> set (rolesFor (Some (NewAssignments subj grp)) s email verified gs) \<longleftrightarrow>
      ValidRole r \<and>
      (r \<in> set (lookup subj s) \<or> (email \<noteq> '''' \<and> verified \<and> r \<in> set (lookup subj email)) \<or>
       list_ex (\<lambda>g. r \<in> set (lookup grp g)) gs))"
  by (auto simp: rolesFor_def addRoles_distinct set_Assignments_RolesFor NewAssignments_def
      lookup_filterRoles list_ex_iff Let_def)

text \<open>Roles held in one tenant do not show up in another.\<close>

lemma TenantRolesFor_other:
  "ta_byTenant ta t = None \<Longrightarrow> TenantRolesFor (Some ta) t s e v gs = []"
  by (simp add: TenantRolesFor_def rolesFor_def)

section \<open>Parsing resources\<close>

lemma first_index_None: "first_index P xs = None \<longleftrightarrow> list_all (\<lambda>x. \<not> P x) xs"
  by (induction xs) auto

lemma ValidResourceType_no_slash: "ValidResourceType t \<Longrightarrow> CHR ''/'' \<notin> set t \<and> t \<noteq> ''''"
  by (auto simp: ValidResourceType_def AllResourceTypes_def grant_name_defs)

lemma char_index_split: "char_index s c = Some i \<Longrightarrow> s = take i s @ c # drop (i + 1) s \<and> c \<notin> set (take i s)"
proof (induction s arbitrary: i)
  case (Cons x s)
  then show ?case
    by (auto split: if_splits)
qed simp

lemma ParseResource_spec:
  "ParseResource s = Inr r \<longleftrightarrow>
     trim_space s = Resource_String r \<and> Resource_Valid r \<and> list_all (\<lambda>c. \<not> control_char c) (res_ID r)"
proof
  assume "ParseResource s = Inr r"
  then obtain i where "char_index (trim_space s) (CHR ''/'') = Some i"
    and r: "r = \<lparr>res_Type = take i (trim_space s), res_ID = drop (i + 1) (trim_space s)\<rparr>"
      "ValidResourceType (res_Type r)" "res_ID r \<noteq> ''''" "first_index control_char (res_ID r) = None"
    by (auto simp: ParseResource_def Let_def split: option.splits if_splits)
  then show "trim_space s = Resource_String r \<and> Resource_Valid r \<and> list_all (\<lambda>c. \<not> control_char c) (res_ID r)"
    using char_index_split by (fastforce simp: Resource_String_def Resource_Valid_def first_index_None)
next
  assume "trim_space s = Resource_String r \<and> Resource_Valid r \<and> list_all (\<lambda>c. \<not> control_char c) (res_ID r)"
  moreover from this have "CHR ''/'' \<notin> set (res_Type r)" "res_Type r \<noteq> ''''"
    using ValidResourceType_no_slash by (auto simp: Resource_Valid_def)
  moreover have "first_index control_char (res_ID r) = None"
    using calculation by (simp add: first_index_None)
  ultimately show "ParseResource s = Inr r"
    by (simp add: ParseResource_def Resource_String_def Resource_Valid_def char_index_append Let_def)
qed

lemma ParseResource_valid: "ParseResource s = Inr r \<Longrightarrow> Resource_Valid r"
  by (simp add: ParseResource_spec)


lemma Resource_String_inj:
  assumes "Resource_String r = Resource_String q" "Resource_Valid r" "Resource_Valid q"
  shows "r = q"
proof -
  have ns: "CHR ''/'' \<notin> set (res_Type r)" "CHR ''/'' \<notin> set (res_Type q)"
    using assms(2,3) ValidResourceType_no_slash by (auto simp: Resource_Valid_def)
  have "char_index (res_Type r @ CHR ''/'' # res_ID r) (CHR ''/'') =
      char_index (res_Type q @ CHR ''/'' # res_ID q) (CHR ''/'')"
    using assms(1) by (simp add: Resource_String_def)
  then have "length (res_Type r) = length (res_Type q)"
    using ns by (simp add: char_index_append)
  with assms(1) show ?thesis
    by (simp add: Resource_String_def)
qed

section \<open>The grant evaluator\<close>

lemma collect_set:
  "r \<in> set (collect i sub gs out) \<longleftrightarrow>
     r \<in> set out \<or> (\<exists>g\<in>set gs. g_Role g = r \<and> Matches i g \<and> (sub \<longrightarrow> g_Scope g = ScopeSubtree))"
  by (induction i sub gs out rule: collect.induct) auto

lemma collect_fold_set:
  "r \<in> set (foldl (\<lambda>out a. collect i True (f a) out) out as) \<longleftrightarrow>
     r \<in> set out \<or> (\<exists>a\<in>set as. \<exists>g\<in>set (f a). g_Role g = r \<and> Matches i g \<and> g_Scope g = ScopeSubtree)"
  by (induction as arbitrary: out) (auto simp: collect_set)

lemma NewGrantSet_lookup:
  "set (lookup (NewGrantSet grants) k) =
     {g \<in> Normalized ` set grants. Grant_Validate g = None \<and> Resource_String (g_Resource g) = k}"
proof (induction grants rule: rev_induct)
  case Nil
  then show ?case
    by (simp add: NewGrantSet_def lookup_def)
next
  case (snoc g gs)
  have "lookup (NewGrantSet (gs @ [g])) k =
      (if Grant_Validate (Normalized g) = None \<and> Resource_String (g_Resource (Normalized g)) = k
       then lookup (NewGrantSet gs) k @ [Normalized g] else lookup (NewGrantSet gs) k)"
    by (auto simp: NewGrantSet_def Let_def lookup_def)
  with snoc show ?case
    by auto
qed

lemma Normalized_simps [simp]:
  "g_Resource (Normalized g) = g_Resource g" "g_Role (Normalized g) = g_Role g"
  "Matches i (Normalized g) = Matches i g"
  "g_Scope (Normalized g) = ScopeSubtree \<longleftrightarrow> g_Scope g = ScopeSubtree"
  by (simp_all add: Normalized_def Matches_def grant_name_defs)

lemma valid_resource: "Grant_Validate g = None \<Longrightarrow> Resource_Valid (g_Resource g)"
  by (auto simp: Grant_Validate_def split: if_splits)

lemma bex_lookup:
  "(\<exists>g\<in>set (lookup (NewGrantSet grants) k). P g) \<longleftrightarrow>
     (\<exists>g\<in>set grants. Grant_Validate (Normalized g) = None \<and> Resource_String (g_Resource g) = k \<and> P (Normalized g))"
  by (auto simp: NewGrantSet_lookup)

lemma GrantSet_RolesFor_set:
  "r \<in> set (GrantSet_RolesFor (Some (NewGrantSet grants)) res ancestors i) \<longleftrightarrow>
     (\<exists>g\<in>set grants. Grant_Validate (Normalized g) = None \<and> Matches i g \<and> g_Role g = r \<and>
       (Resource_String (g_Resource g) = Resource_String res \<or>
        g_Scope g = ScopeSubtree \<and> (\<exists>a\<in>set ancestors. Resource_String (g_Resource g) = Resource_String a)))"
  unfolding GrantSet_RolesFor_def option.case collect_fold_set collect_set bex_lookup by auto

text \<open>The reference reading of a rule set: some well-formed rule says yes.\<close>

definition grant_says_yes :: "Grant \<Rightarrow> Resource \<Rightarrow> Resource list \<Rightarrow> Identity \<Rightarrow> Action \<Rightarrow> bool" where
  "grant_says_yes g res ancestors i action \<longleftrightarrow>
     Grant_Validate (Normalized g) = None \<and> Matches i g \<and> ResourceRoleGrants (g_Role g) action \<and>
     (g_Resource g = res \<or> g_Scope g = ScopeSubtree \<and> g_Resource g \<in> set ancestors)"

lemma Allows_spec:
  assumes "list_all Resource_Valid (res # ancestors)"
  shows "Allows (Some (NewGrantSet grants)) res ancestors i action \<longleftrightarrow>
    list_ex (\<lambda>g. grant_says_yes g res ancestors i action) grants"
proof -
  have key: "Resource_String (g_Resource g) = Resource_String q \<longleftrightarrow> g_Resource g = q"
    if "Grant_Validate (Normalized g) = None" "q \<in> set (res # ancestors)" for g q
  proof -
    have "Resource_Valid (g_Resource g)"
      using valid_resource [OF that(1)] by simp
    moreover have "Resource_Valid q"
      using assms that(2) by (auto simp: list_all_iff)
    ultimately show ?thesis
      using Resource_String_inj by blast
  qed
  have anc: "(\<exists>a\<in>set ancestors. Resource_String (g_Resource g) = Resource_String a) \<longleftrightarrow> g_Resource g \<in> set ancestors"
    if "Grant_Validate (Normalized g) = None" for g
    using key [OF that] by auto
  have eq: "grant_says_yes g res ancestors i action \<longleftrightarrow>
      Grant_Validate (Normalized g) = None \<and> Matches i g \<and> ResourceRoleGrants (g_Role g) action \<and>
      (Resource_String (g_Resource g) = Resource_String res \<or>
       g_Scope g = ScopeSubtree \<and> (\<exists>a\<in>set ancestors. Resource_String (g_Resource g) = Resource_String a))" for g
    using key [of g res] anc [of g] by (auto simp: grant_says_yes_def)
  show ?thesis
    unfolding Allows_def option.case list_ex_iff eq Bex_def [of "set (GrantSet_RolesFor _ _ _ _)"] GrantSet_RolesFor_set
    by blast
qed

text \<open>
  C8. The indexed evaluator decides what the rules say: an action is allowed at a
  resource exactly when some well-formed grant bound to the caller names that
  resource, or names one of its ancestors with subtree scope, and carries the action.
  Grants are therefore purely additive.
\<close>

theorem Allows_iff:
  assumes "list_all Resource_Valid (res # ancestors)"
  shows "Allows (Some (NewGrantSet grants)) res ancestors i action \<longleftrightarrow>
    list_ex (\<lambda>g. grant_says_yes g res ancestors i action) grants"
  by (rule Allows_spec [OF assms])

definition demo_grant :: Grant where
  "demo_grant = \<lparr>g_Resource = \<lparr>res_Type = ResourceCA, res_ID = ''root''\<rparr>, g_EntityType = EntityGroup,
     g_EntityID = ''ops'', g_Role = ResourceRoleCAIssuer, g_Scope = ScopeSubtree\<rparr>"

definition demo_identity :: Identity where
  "demo_identity = \<lparr>id_Subject = ''u1'', id_Email = '''', id_EmailVerified = False, id_Groups = [''dev'', ''ops'']\<rparr>"

theorem Allows_iff_witness:
  "Allows (Some (NewGrantSet [demo_grant])) \<lparr>res_Type = ResourceCA, res_ID = ''leaf''\<rparr>
     [\<lparr>res_Type = ResourceCA, res_ID = ''mid''\<rparr>, \<lparr>res_Type = ResourceCA, res_ID = ''root''\<rparr>] demo_identity ActionIssue"
proof -
  have "list_all Resource_Valid
      (\<lparr>res_Type = ResourceCA, res_ID = ''leaf''\<rparr> #
       [\<lparr>res_Type = ResourceCA, res_ID = ''mid''\<rparr>, \<lparr>res_Type = ResourceCA, res_ID = ''root''\<rparr>])"
    by code_simp
  moreover have "list_ex (\<lambda>g. grant_says_yes g \<lparr>res_Type = ResourceCA, res_ID = ''leaf''\<rparr>
      [\<lparr>res_Type = ResourceCA, res_ID = ''mid''\<rparr>, \<lparr>res_Type = ResourceCA, res_ID = ''root''\<rparr>] demo_identity ActionIssue) [demo_grant]"
    by code_simp
  ultimately show ?thesis
    using Allows_iff [of "\<lparr>res_Type = ResourceCA, res_ID = ''leaf''\<rparr>"] by blast
qed

lemma sort_key_mset_cong:
  assumes "inj f" "mset xs = mset ys"
  shows "sort_key f xs = sort_key f ys"
proof -
  have "sort (map f xs) = map f (sort_key f xs)" "sort (map f ys) = map f (sort_key f ys)"
    by (simp_all add: properties_for_sort)
  moreover have "sort (map f xs) = sort (map f ys)"
    using assms(2) by (intro properties_for_sort) simp_all
  ultimately show ?thesis
    using assms(1) by (simp add: inj_map_eq_map)
qed

text \<open>
  Listing all grants of a set does not depend on the order in which the
  underlying map is walked: the sort settles every pair of different grants.
\<close>

theorem All_grants_walk:
  assumes "distinct walk" "distinct walk'" "set walk = set walk'"
  shows "All_grants walk gs = All_grants walk' gs"
proof (cases gs)
  case (Some m)
  have inj: "inj grant_order"
    by (auto intro!: injI simp: grant_order_def)
  have "mset (concat (map (lookup m) w)) = (\<Sum>k\<in>#mset w. mset (lookup m k))" for w
    by (induction w) simp_all
  moreover have "mset walk = mset walk'"
    using assms by (simp add: set_eq_iff_mset_eq_distinct)
  ultimately have "mset (concat (map (lookup m) walk)) = mset (concat (map (lookup m) walk'))"
    by simp
  then have "sort_key grant_order (concat (map (lookup m) walk)) = sort_key grant_order (concat (map (lookup m) walk'))"
    by (rule sort_key_mset_cong [OF inj])
  with Some show ?thesis
    by (simp add: All_grants_def SortGrants_def)
qed (simp add: All_grants_def)

theorem All_grants_walk_witness:
  "All_grants [''ca/root'', ''ca/x''] (Some (NewGrantSet [demo_grant])) =
   All_grants [''ca/x'', ''ca/root''] (Some (NewGrantSet [demo_grant]))"
  by (rule All_grants_walk) auto

text \<open>
  The natural key of a grant joins its parts with a bar without escaping, so it
  does not identify the rule: two different valid grants, naming different
  authorities and different users, have one key.
\<close>

theorem Grant_Key_not_injective:
  "\<exists>g h. Grant_Validate g = None \<and> Grant_Validate h = None \<and> g_Resource g \<noteq> g_Resource h \<and>
     g_EntityID g \<noteq> g_EntityID h \<and> Grant_Key g = Grant_Key h"
  by (rule exI [of _ "\<lparr>g_Resource = \<lparr>res_Type = ResourceCA, res_ID = ''x''\<rparr>, g_EntityType = EntityUser,
         g_EntityID = ''y|user|z'', g_Role = ResourceRoleCAAdmin, g_Scope = ScopeSelf\<rparr>"],
      rule exI [of _ "\<lparr>g_Resource = \<lparr>res_Type = ResourceCA, res_ID = ''x|user|y''\<rparr>, g_EntityType = EntityUser,
         g_EntityID = ''z'', g_Role = ResourceRoleCAAdmin, g_Scope = ScopeSelf\<rparr>"])
    code_simp

end
