(* ===== verification/Keyed_Store.thy ===== *)
theory Keyed_Store
  imports Main
begin

text \<open>
  The contract of a table with a natural key. A component that writes rows under their
  key and deletes by key interprets the locale; the lemmas give the content of the
  table after any history of writes and deletions.
\<close>

datatype ('r, 'k) store_op = Write 'r | Remove 'k

locale keyed_store =
  fixes put :: "'r \<Rightarrow> 't \<Rightarrow> 't"
    and del :: "'k \<Rightarrow> 't \<Rightarrow> 't"
    and look :: "'t \<Rightarrow> 'k \<Rightarrow> 'v option"
    and key_of :: "'r \<Rightarrow> 'k"
    and val_of :: "'r \<Rightarrow> 'v"
    and wf :: "'t \<Rightarrow> bool"
  assumes look_put: "look (put r t) k = (if k = key_of r then Some (val_of r) else look t k)"
    and look_del: "look (del k' t) k = (if k = k' then None else look t k)"
    and wf_put: "wf t \<Longrightarrow> wf (put r t)"
    and wf_del: "wf t \<Longrightarrow> wf (del k t)"
begin

fun apply_op :: "'t \<Rightarrow> ('r, 'k) store_op \<Rightarrow> 't" where
  "apply_op t (Write r) = put r t"
| "apply_op t (Remove k) = del k t"

fun written :: "'k \<Rightarrow> 'v option \<Rightarrow> ('r, 'k) store_op \<Rightarrow> 'v option" where
  "written k v (Write r) = (if k = key_of r then Some (val_of r) else v)"
| "written k v (Remove k') = (if k = k' then None else v)"

lemma wf_history: "wf t \<Longrightarrow> wf (foldl apply_op t ops)"
proof (induction ops arbitrary: t)
  case (Cons a ops)
  then show ?case
    by (cases a) (simp_all add: wf_put wf_del)
qed simp

lemma look_history: "look (foldl apply_op t ops) k = foldl (written k) (look t k) ops"
proof (induction ops arbitrary: t)
  case (Cons a ops)
  then show ?case
    by (cases a) (simp_all add: look_put look_del)
qed simp

text \<open>What was written under a key stays until the key is written or removed again.\<close>

lemma look_kept:
  assumes "\<forall>r. Write r \<in> set ops \<longrightarrow> key_of r \<noteq> k" "Remove k \<notin> set ops"
  shows "look (foldl apply_op t ops) k = look t k"
  using assms
proof (induction ops arbitrary: t)
  case (Cons a ops)
  then show ?case
    by (cases a) (auto simp: look_put look_del)
qed simp

lemma look_after_put:
  assumes "\<forall>r. Write r \<in> set ops \<longrightarrow> key_of r \<noteq> key_of q" "Remove (key_of q) \<notin> set ops"
  shows "look (foldl apply_op (put q t) ops) (key_of q) = Some (val_of q)"
  using look_kept [OF assms] by (simp add: look_put)

lemma look_after_del:
  assumes "\<forall>r. Write r \<in> set ops \<longrightarrow> key_of r \<noteq> k"
  shows "look (foldl apply_op (del k t) ops) k = None"
proof -
  have "foldl (written k) None ops = None"
    using assms
  proof (induction ops)
    case (Cons a ops)
    then show ?case
      by (cases a) auto
  qed simp
  then show ?thesis
    by (simp add: look_history look_del)
qed

end

end
