(* ===== verification/Grant_Store.thy ===== *)
theory Grant_Store
  imports Audit_Log RBAC Keyed_Store
begin

text \<open>
  The tables an authorization decision reads: stored resource grants
  (\<^verbatim>\<open>server/internal/database/resource_grants.go\<close>), the parent links and tenants of the
  certificate authorities, group membership and the per-authority permissions
  (\<^verbatim>\<open>server/internal/database/database.go\<close>), with the record types of
  \<^verbatim>\<open>server/internal/models/models.go\<close>. A table is the list of its rows; a query may
  fail, which the field \<open>db_fails\<close> decides by giving the text of the error. Orderings
  requested from the database compare bytes.
\<close>

section \<open>Records\<close>

record UserInfo =
  ui_Subject :: string
  ui_Email :: string
  ui_EmailVerified :: bool
  ui_Name :: string
  ui_IsRoot :: bool
  ui_Roles :: "string list"
  ui_TenantRoles :: "string \<rightharpoonup> string list"
  ui_Groups :: "string list"
  ui_AuthProvider :: string

definition TenantsWithRoles :: "string list \<Rightarrow> UserInfo option \<Rightarrow> string list" where
  "TenantsWithRoles walk u =
     (case u of None \<Rightarrow> [] | Some u \<Rightarrow> filter (\<lambda>t. ui_TenantRoles u t \<noteq> None) walk)"

record ResourceGrant =
  rg_ID :: string
  rg_ResourceType :: ResourceType
  rg_ResourceID :: string
  rg_EntityType :: string
  rg_EntityID :: string
  rg_Role :: ResourceRole
  rg_Scope :: GrantScope
  rg_CreatedAt :: time
  rg_CreatedBy :: string

definition ResourceGrant_Grant :: "ResourceGrant \<Rightarrow> Grant" where
  "ResourceGrant_Grant g =
     Normalized \<lparr>g_Resource = \<lparr>res_Type = rg_ResourceType g, res_ID = rg_ResourceID g\<rparr>,
       g_EntityType = rg_EntityType g, g_EntityID = rg_EntityID g, g_Role = rg_Role g, g_Scope = rg_Scope g\<rparr>"

record ResourceGrantRequest =
  rq_Resource :: string
  rq_EntityType :: string
  rq_EntityID :: string
  rq_Role :: ResourceRole
  rq_Scope :: GrantScope

record EffectiveResourceAccess =
  ea_Resource :: string
  ea_Subject :: string
  ea_TenantID :: string
  ea_IsRoot :: bool
  ea_PlatformRoles :: "string list"
  ea_TenantRoles :: "string list"
  ea_ResourceRoles :: "ResourceRole list"
  ea_Actions :: "Action list"
  ea_Grants :: "Grant list"

type_synonym Permission = string

definition PermSignCertificate :: Permission where "PermSignCertificate = ''SIGN_CERTIFICATE''"
definition PermConfigureCA :: Permission where "PermConfigureCA = ''CONFIGURE_CA''"

record PermissionEntry =
  pe_CAID :: string
  pe_EntityType :: string
  pe_EntityID :: string
  pe_Permission :: Permission

section \<open>The database\<close>

datatype db_query =
    QUserGroups string | QHasPermission string string string | QCATenant string | QCAParent string | QListCAs
  | QGrantsAt ResourceType | QGrantsOf Resource | QGrantsAll | XPutGrant | XDeleteGrant
  | QCountEvents | QListEvents | QAllEvents | XAppendEvent

record cas_row =
  ca_id :: string
  ca_tenant_id :: "string option"
  ca_parent_id :: "string option"

record DB =
  db_cas :: "cas_row list"
  db_resource_grants :: "ResourceGrant list"
  db_group_members :: "(string \<times> string) list"
  db_permissions :: "PermissionEntry list"
  db_event_log :: "Event list"
  db_fails :: "db_query \<Rightarrow> string option"

definition run :: "DB \<Rightarrow> db_query \<Rightarrow> 'a \<Rightarrow> (string, 'a) result" where
  "run db q v = (case db_fails db q of Some err \<Rightarrow> Inl err | None \<Rightarrow> Inr v)"

datatype put_error = InvalidGrant grant_error | PutFailed string

definition same_key :: "ResourceGrant \<Rightarrow> ResourceGrant \<Rightarrow> bool" where
  "same_key g h \<longleftrightarrow> rg_ResourceType g = rg_ResourceType h \<and> rg_ResourceID g = rg_ResourceID h \<and>
     rg_EntityType g = rg_EntityType h \<and> rg_EntityID g = rg_EntityID h \<and> rg_Role g = rg_Role h"

text \<open>\<^verbatim>\<open>INSERT ... ON CONFLICT (natural key) DO UPDATE SET scope, created_at, created_by\<close>.\<close>

fun upsert :: "ResourceGrant \<Rightarrow> ResourceGrant list \<Rightarrow> ResourceGrant list" where
  "upsert g [] = [g]"
| "upsert g (h # hs) =
     (if same_key g h
      then h\<lparr>rg_Scope := rg_Scope g, rg_CreatedAt := rg_CreatedAt g, rg_CreatedBy := rg_CreatedBy g\<rparr> # hs
      else h # upsert g hs)"

text \<open>The grant is passed by reference: the stored scope and time are visible to the caller.\<close>

definition PutResourceGrant :: "time \<Rightarrow> ResourceGrant \<Rightarrow> DB \<Rightarrow> (put_error, ResourceGrant) result \<times> DB" where
  "PutResourceGrant now g db =
     (let rule = ResourceGrant_Grant g in
      case Grant_Validate rule of
        Some e \<Rightarrow> (Inl (InvalidGrant e), db)
      | None \<Rightarrow>
          let g = g\<lparr>rg_Scope := g_Scope rule\<rparr>;
              g = (if rg_CreatedAt g = zero_time then g\<lparr>rg_CreatedAt := now\<rparr> else g)
          in case db_fails db XPutGrant of
               Some err \<Rightarrow> (Inl (PutFailed err), db)
             | None \<Rightarrow> (Inr g, db\<lparr>db_resource_grants := upsert g (db_resource_grants db)\<rparr>))"

definition grant_row_is :: "Resource \<Rightarrow> string \<Rightarrow> string \<Rightarrow> ResourceRole \<Rightarrow> ResourceGrant \<Rightarrow> bool" where
  "grant_row_is res entityType entityID role g \<longleftrightarrow>
     rg_ResourceType g = res_Type res \<and> rg_ResourceID g = res_ID res \<and>
     rg_EntityType g = entityType \<and> rg_EntityID g = entityID \<and> rg_Role g = role"

definition DB_DeleteResourceGrant ::
  "Resource \<Rightarrow> string \<Rightarrow> string \<Rightarrow> ResourceRole \<Rightarrow> DB \<Rightarrow> (string, bool) result \<times> DB" where
  "DB_DeleteResourceGrant res entityType entityID role db =
     (case db_fails db XDeleteGrant of
        Some err \<Rightarrow> (Inl err, db)
      | None \<Rightarrow>
          let gone = filter (grant_row_is res entityType entityID role) (db_resource_grants db)
          in (Inr (length gone > 0),
              db\<lparr>db_resource_grants := filter (\<lambda>g. \<not> grant_row_is res entityType entityID role g) (db_resource_grants db)\<rparr>))"

definition row_resource :: "ResourceGrant \<Rightarrow> Resource" where
  "row_resource g = \<lparr>res_Type = rg_ResourceType g, res_ID = rg_ResourceID g\<rparr>"

definition DeleteResourceGrantsFor :: "Resource \<Rightarrow> DB \<Rightarrow> string option \<times> DB" where
  "DeleteResourceGrantsFor res db =
     (case db_fails db XDeleteGrant of
        Some err \<Rightarrow> (Some err, db)
      | None \<Rightarrow> (None, db\<lparr>db_resource_grants := filter (\<lambda>g. row_resource g \<noteq> res) (db_resource_grants db)\<rparr>))"

definition DB_ListResourceGrants :: "Resource \<Rightarrow> DB \<Rightarrow> (string, ResourceGrant list) result" where
  "DB_ListResourceGrants res db =
     run db (QGrantsOf res)
       (sort_key (\<lambda>g. (rg_EntityType g, rg_EntityID g, rg_Role g))
         (filter (\<lambda>g. row_resource g = res) (db_resource_grants db)))"

text \<open>The identifiers by resource type, in the order in which the types first occur.\<close>

fun append_at :: "'k \<Rightarrow> 'v \<Rightarrow> ('k \<times> 'v list) list \<Rightarrow> ('k \<times> 'v list) list" where
  "append_at k v [] = [(k, [v])]"
| "append_at k v ((k', vs) # m) = (if k = k' then (k', vs @ [v]) # m else (k', vs) # append_at k v m)"

fun byTypeLoop :: "Resource list \<Rightarrow> string list \<Rightarrow> (ResourceType \<times> string list) list \<Rightarrow> (ResourceType \<times> string list) list" where
  "byTypeLoop [] seen byType = byType"
| "byTypeLoop (r # rs) seen byType =
     (if \<not> Resource_Valid r \<or> Resource_String r \<in> set seen then byTypeLoop rs seen byType
      else byTypeLoop rs (Resource_String r # seen) (append_at (res_Type r) (res_ID r) byType))"

fun queryByType :: "DB \<Rightarrow> (ResourceType \<times> string list) list \<Rightarrow> ResourceGrant list \<Rightarrow> (string, ResourceGrant list) result" where
  "queryByType db [] out = Inr out"
| "queryByType db ((typ, ids) # rest) out =
     (case run db (QGrantsAt typ)
             (filter (\<lambda>g. rg_ResourceType g = typ \<and> rg_ResourceID g \<in> set ids) (db_resource_grants db)) of
        Inl err \<Rightarrow> Inl err
      | Inr got \<Rightarrow> queryByType db rest (out @ got))"

definition ListResourceGrantsAt :: "Resource list \<Rightarrow> DB \<Rightarrow> (string, ResourceGrant list) result" where
  "ListResourceGrantsAt resources db = queryByType db (byTypeLoop resources [] []) []"

definition ListAllResourceGrants :: "DB \<Rightarrow> (string, ResourceGrant list) result" where
  "ListAllResourceGrants db =
     run db QGrantsAll
       (sort_key (\<lambda>g. (rg_ResourceType g, rg_ResourceID g, rg_EntityType g, rg_EntityID g, rg_Role g)) (db_resource_grants db))"

definition SetCAParentForTest :: "string \<Rightarrow> string \<Rightarrow> DB \<Rightarrow> DB" where
  "SetCAParentForTest caID parentID db =
     db\<lparr>db_cas := map (\<lambda>r. if ca_id r = caID then r\<lparr>ca_parent_id := Some parentID\<rparr> else r) (db_cas db)\<rparr>"

definition ca_row :: "DB \<Rightarrow> string \<Rightarrow> cas_row option" where
  "ca_row db caID = find (\<lambda>r. ca_id r = caID) (db_cas db)"

definition maxCAHierarchyDepth :: nat where "maxCAHierarchyDepth = 32"

fun ancestorsLoop :: "nat \<Rightarrow> DB \<Rightarrow> string list \<Rightarrow> string \<Rightarrow> string list \<Rightarrow> (string, string list) result" where
  "ancestorsLoop 0 db seen cur out = Inr out"
| "ancestorsLoop (Suc n) db seen cur out =
     (case run db (QCAParent cur) (ca_row db cur) of
        Inl err \<Rightarrow> Inl err
      | Inr None \<Rightarrow> Inr out
      | Inr (Some r) \<Rightarrow>
          (case ca_parent_id r of
             None \<Rightarrow> Inr out
           | Some parent \<Rightarrow>
               if parent = '''' \<or> parent \<in> set seen then Inr out
               else ancestorsLoop n db (parent # seen) parent (out @ [parent])))"

definition GetCAAncestors :: "string \<Rightarrow> DB \<Rightarrow> (string, string list) result" where
  "GetCAAncestors caID db = ancestorsLoop maxCAHierarchyDepth db [caID] caID []"

definition GetCATenant :: "string \<Rightarrow> DB \<Rightarrow> (string, string) result" where
  "GetCATenant caID db =
     (case run db (QCATenant caID) (ca_row db caID) of
        Inl err \<Rightarrow> Inl err
      | Inr None \<Rightarrow> Inr ''''
      | Inr (Some r) \<Rightarrow>
          (case ca_tenant_id r of
             None \<Rightarrow> Inr DefaultTenantID
           | Some t \<Rightarrow> if t = '''' then Inr DefaultTenantID else Inr t))"

definition GetUserGroups :: "string \<Rightarrow> DB \<Rightarrow> (string, string list) result" where
  "GetUserGroups userSub db =
     run db (QUserGroups userSub) (map snd (filter (\<lambda>(u, g). u = userSub) (db_group_members db)))"

definition countPermissions :: "string \<Rightarrow> string \<Rightarrow> string \<Rightarrow> Permission \<Rightarrow> DB \<Rightarrow> (string, nat) result" where
  "countPermissions caID entityType entityID perm db =
     run db (QHasPermission caID entityType entityID)
       (length (filter (\<lambda>p. pe_CAID p = caID \<and> pe_EntityType p = entityType \<and> pe_EntityID p = entityID \<and>
          pe_Permission p = perm) (db_permissions db)))"

fun groupPermission :: "string \<Rightarrow> Permission \<Rightarrow> DB \<Rightarrow> string list \<Rightarrow> (string, bool) result" where
  "groupPermission caID perm db [] = Inr False"
| "groupPermission caID perm db (gid # gids) =
     (case countPermissions caID ''group'' gid perm db of
        Inl err \<Rightarrow> Inl err
      | Inr n \<Rightarrow> if n > 0 then Inr True else groupPermission caID perm db gids)"

definition HasPermission :: "string \<Rightarrow> string \<Rightarrow> Permission \<Rightarrow> string list \<Rightarrow> DB \<Rightarrow> (string, bool) result" where
  "HasPermission caID userSub perm groupIDs db =
     (case countPermissions caID ''user'' userSub perm db of
        Inl err \<Rightarrow> Inl err
      | Inr n \<Rightarrow> if n > 0 then Inr True else groupPermission caID perm db groupIDs)"

text \<open>
  A page of the event log, newest first. The counting query and the page query are two
  statements; both may fail.
\<close>

definition event_matches :: "string \<Rightarrow> string \<Rightarrow> string \<Rightarrow> Event \<Rightarrow> bool" where
  "event_matches action actor tenant e \<longleftrightarrow>
     (action \<noteq> '''' \<longrightarrow> ev_Action e = action) \<and> (actor \<noteq> '''' \<longrightarrow> ev_Actor e = actor) \<and>
     (tenant \<noteq> '''' \<longrightarrow> ev_Tenant e = tenant)"

definition ListEvents :: "string \<Rightarrow> string \<Rightarrow> string \<Rightarrow> nat \<Rightarrow> nat \<Rightarrow> DB \<Rightarrow> (string, Event list \<times> nat) result" where
  "ListEvents action actor tenant limit offset db =
     (let hits = filter (event_matches action actor tenant) (db_event_log db) in
      case run db QCountEvents (length hits) of
        Inl err \<Rightarrow> Inl err
      | Inr matched \<Rightarrow>
          (case run db QListEvents (take limit (drop offset (rev (sort_key (\<lambda>e. sint (ev_Seq e)) hits)))) of
             Inl err \<Rightarrow> Inl err
           | Inr events \<Rightarrow> Inr (events, matched)))"

definition VerifyEventChain :: "hash_fn \<Rightarrow> DB \<Rightarrow> (string, VerifyResult) result" where
  "VerifyEventChain sha256 db =
     (case run db QAllEvents (ListAllEventsAsc (db_event_log db)) of
        Inl err \<Rightarrow> Inl (''loading event log: '' @ err)
      | Inr events \<Rightarrow> Inr (VerifyFullChain sha256 events))"

lemma run_healthy [simp]: "db_fails db q = None \<Longrightarrow> run db q v = Inr v"
  by (simp add: run_def)

lemma run_eq_Inr: "run db q v = Inr w \<longleftrightarrow> db_fails db q = None \<and> w = v"
  by (auto simp: run_def split: option.splits)

section \<open>Stored grants\<close>

text \<open>The natural key is unique in the table, and every operation keeps it so.\<close>

definition keys_unique :: "ResourceGrant list \<Rightarrow> bool" where
  "keys_unique rows \<longleftrightarrow> distinct (map (\<lambda>g. (row_resource g, rg_EntityType g, rg_EntityID g, rg_Role g)) rows)"

definition grant_key :: "ResourceGrant \<Rightarrow> Resource \<times> string \<times> string \<times> ResourceRole" where
  "grant_key g = (row_resource g, rg_EntityType g, rg_EntityID g, rg_Role g)"

lemma same_key_iff: "same_key g h \<longleftrightarrow> grant_key g = grant_key h"
  by (auto simp: same_key_def grant_key_def row_resource_def)

lemma keys_unique_alt: "keys_unique rows \<longleftrightarrow> distinct (map grant_key rows)"
  by (simp add: keys_unique_def grant_key_def [abs_def])

lemma grant_key_update [simp]:
  "grant_key (g\<lparr>rg_Scope := s\<rparr>) = grant_key g" "grant_key (g\<lparr>rg_CreatedAt := t\<rparr>) = grant_key g"
  "grant_key (g\<lparr>rg_CreatedBy := b\<rparr>) = grant_key g"
  by (simp_all add: grant_key_def row_resource_def)

lemma upsert_keys: "map grant_key (upsert g rows) =
    (if grant_key g \<in> set (map grant_key rows) then map grant_key rows else map grant_key rows @ [grant_key g])"
  by (induction g rows rule: upsert.induct) (auto simp: same_key_iff)

lemma upsert_unique: "keys_unique rows \<Longrightarrow> keys_unique (upsert g rows)"
  unfolding keys_unique_alt upsert_keys by simp

text \<open>Looking a key up gives the scope and the origin of the row.\<close>

definition grant_at :: "ResourceGrant list \<Rightarrow> Resource \<times> string \<times> string \<times> ResourceRole \<Rightarrow> (GrantScope \<times> time \<times> string) option" where
  "grant_at rows k = map_option (\<lambda>g. (rg_Scope g, rg_CreatedAt g, rg_CreatedBy g)) (find (\<lambda>g. grant_key g = k) rows)"

lemma grant_at_upsert:
  "grant_at (upsert g rows) k = (if k = grant_key g then Some (rg_Scope g, rg_CreatedAt g, rg_CreatedBy g) else grant_at rows k)"
  by (induction g rows rule: upsert.induct) (auto simp: grant_at_def same_key_iff)

lemma grant_row_is_iff: "grant_row_is res et ei role g \<longleftrightarrow> grant_key g = (res, et, ei, role)"
  by (auto simp: grant_row_is_def grant_key_def row_resource_def)

lemma grant_at_delete:
  "grant_at (filter (\<lambda>g. grant_key g \<noteq> k') rows) k = (if k = k' then None else grant_at rows k)"
  by (induction rows) (auto simp: grant_at_def)

lemma keys_unique_filter: "keys_unique rows \<Longrightarrow> keys_unique (filter P rows)"
  by (simp add: keys_unique_alt distinct_map_filter)

interpretation gs: keyed_store upsert "\<lambda>k. filter (\<lambda>g. grant_key g \<noteq> k)"
  grant_at grant_key "\<lambda>g. (rg_Scope g, rg_CreatedAt g, rg_CreatedBy g)" keys_unique
  by unfold_locales (simp_all add: grant_at_upsert grant_at_delete upsert_unique keys_unique_filter)

text \<open>
  Requests against the table as the evaluator sees it: each either succeeds, and is
  then one write or removal, or fails and changes nothing.
\<close>

datatype grant_request = PutReq time ResourceGrant | DelReq Resource string string ResourceRole

definition grant_step :: "DB \<Rightarrow> (db_query \<Rightarrow> string option) \<times> grant_request \<Rightarrow> DB" where
  "grant_step db x =
     (let db = db\<lparr>db_fails := fst x\<rparr> in
      case snd x of
        PutReq now g \<Rightarrow> snd (PutResourceGrant now g db)
      | DelReq res et ei role \<Rightarrow> snd (DB_DeleteResourceGrant res et ei role db))"

definition stored_form :: "time \<Rightarrow> ResourceGrant \<Rightarrow> ResourceGrant" where
  "stored_form now g =
     (let g = g\<lparr>rg_Scope := g_Scope (ResourceGrant_Grant g)\<rparr>
      in if rg_CreatedAt g = zero_time then g\<lparr>rg_CreatedAt := now\<rparr> else g)"

definition grant_op :: "(db_query \<Rightarrow> string option) \<times> grant_request \<Rightarrow> (ResourceGrant, Resource \<times> string \<times> string \<times> ResourceRole) store_op list" where
  "grant_op x =
     (case snd x of
        PutReq now g \<Rightarrow>
          if Grant_Validate (ResourceGrant_Grant g) = None \<and> fst x XPutGrant = None then [Write (stored_form now g)] else []
      | DelReq res et ei role \<Rightarrow> if fst x XDeleteGrant = None then [Remove (res, et, ei, role)] else [])"

lemma stored_form_simps [simp]:
  "grant_key (stored_form now g) = grant_key g"
  "rg_Scope (stored_form now g) = g_Scope (ResourceGrant_Grant g)"
  "rg_CreatedAt (stored_form now g) = (if rg_CreatedAt g = zero_time then now else rg_CreatedAt g)"
  "rg_CreatedBy (stored_form now g) = rg_CreatedBy g"
  by (simp_all add: stored_form_def Let_def)

lemma grant_step_rows:
  "db_resource_grants (grant_step db x) = foldl gs.apply_op (db_resource_grants db) (grant_op x)"
  by (cases "snd x")
    (auto simp: grant_step_def grant_op_def PutResourceGrant_def DB_DeleteResourceGrant_def stored_form_def
      grant_row_is_iff Let_def split: option.splits)

lemma grant_steps_rows:
  "db_resource_grants (foldl grant_step db xs) = foldl gs.apply_op (db_resource_grants db) (concat (map grant_op xs))"
  by (induction xs arbitrary: db) (simp_all add: grant_step_rows)

text \<open>
  C36. Through any history of grant requests, with arbitrary validation and storage
  failures, the natural key stays unique, and a grant that was stored is found with its
  scope until a later request names its key: a re-grant replaces, a revocation removes.
\<close>

theorem grant_history:
  assumes "keys_unique (db_resource_grants db)"
    and "Grant_Validate (ResourceGrant_Grant g) = None" "fails XPutGrant = None"
    and "\<forall>x\<in>set later. \<forall>op\<in>set (grant_op x).
           op \<noteq> Remove (grant_key g) \<and> (\<forall>r. op = Write r \<longrightarrow> grant_key r \<noteq> grant_key g)"
    and "db' = foldl grant_step db (earlier @ (fails, PutReq now g) # later)"
  shows "keys_unique (db_resource_grants db') \<and>
    grant_at (db_resource_grants db') (grant_key g) =
      Some (g_Scope (ResourceGrant_Grant g), if rg_CreatedAt g = zero_time then now else rg_CreatedAt g, rg_CreatedBy g)"
proof -
  let ?rows = "foldl gs.apply_op (db_resource_grants db) (concat (map grant_op earlier))"
  have "gs.apply_op ?rows (Write (stored_form now g)) = upsert (stored_form now g) ?rows"
    by simp
  then have rows: "db_resource_grants db' =
      foldl gs.apply_op (upsert (stored_form now g) ?rows) (concat (map grant_op later))"
    using assms(2,3,5) by (simp add: grant_steps_rows grant_step_rows grant_op_def)
  have "keys_unique (db_resource_grants db')"
    unfolding rows by (intro gs.wf_history upsert_unique assms(1))
  moreover have "grant_at (db_resource_grants db') (grant_key (stored_form now g)) =
      Some (rg_Scope (stored_form now g), rg_CreatedAt (stored_form now g), rg_CreatedBy (stored_form now g))"
    unfolding rows using assms(4) by (intro gs.look_after_put) auto
  ultimately show ?thesis
    by simp
qed

section \<open>Loading the grants in scope\<close>

definition pairs :: "('k \<times> 'v list) list \<Rightarrow> ('k \<times> 'v) set" where
  "pairs m = {(k, v). \<exists>vs. (k, vs) \<in> set m \<and> v \<in> set vs}"

lemma pairs_simps [simp]:
  "pairs [] = {}" "pairs ((k, vs) # m) = {k} \<times> set vs \<union> pairs m"
  by (auto simp: pairs_def)

lemma pairs_append_at [simp]: "pairs (append_at k v m) = insert (k, v) (pairs m)"
  by (induction k v m rule: append_at.induct) auto

lemma byTypeLoop_pairs:
  assumes "\<forall>r. Resource_Valid r \<and> Resource_String r \<in> set seen \<longrightarrow> (res_Type r, res_ID r) \<in> pairs m"
  shows "pairs (byTypeLoop rs seen m) = pairs m \<union> {(res_Type r, res_ID r) |r. r \<in> set rs \<and> Resource_Valid r}"
  using assms
proof (induction rs seen m rule: byTypeLoop.induct)
  case (2 r rs seen m)
  show ?case
  proof (cases "\<not> Resource_Valid r \<or> Resource_String r \<in> set seen")
    case True
    with 2 show ?thesis
      by auto
  next
    case False
    have "\<forall>q. Resource_Valid q \<and> Resource_String q \<in> set (Resource_String r # seen) \<longrightarrow>
        (res_Type q, res_ID q) \<in> pairs (append_at (res_Type r) (res_ID r) m)"
      using 2(3) False Resource_String_inj by fastforce
    with 2(2) False show ?thesis
      by auto
  qed
qed simp

lemma queryByType_set:
  "queryByType db m out = Inr rows \<Longrightarrow>
     set rows = set out \<union> {g \<in> set (db_resource_grants db). (rg_ResourceType g, rg_ResourceID g) \<in> pairs m}"
proof (induction db m out rule: queryByType.induct)
  case (2 db t ids rest out)
  then have "queryByType db rest
      (out @ filter (\<lambda>g. rg_ResourceType g = t \<and> rg_ResourceID g \<in> set ids) (db_resource_grants db)) = Inr rows"
    by (auto simp: run_eq_Inr split: sum.splits)
  moreover have "run db (QGrantsAt t)
      (filter (\<lambda>g. rg_ResourceType g = t \<and> rg_ResourceID g \<in> set ids) (db_resource_grants db)) =
      Inr (filter (\<lambda>g. rg_ResourceType g = t \<and> rg_ResourceID g \<in> set ids) (db_resource_grants db))"
    using 2(2) by (auto simp: run_def split: option.splits)
  ultimately have "set rows = set (out @ filter (\<lambda>g. rg_ResourceType g = t \<and> rg_ResourceID g \<in> set ids) (db_resource_grants db)) \<union>
      {g \<in> set (db_resource_grants db). (rg_ResourceType g, rg_ResourceID g) \<in> pairs rest}"
    using 2(1) by blast
  then show ?case
    by auto
qed simp

lemma ListResourceGrantsAt_set:
  assumes "ListResourceGrantsAt resources db = Inr rows"
  shows "set rows = {g \<in> set (db_resource_grants db). row_resource g \<in> set resources \<and> Resource_Valid (row_resource g)}"
proof -
  have "pairs (byTypeLoop resources [] []) = {(res_Type r, res_ID r) |r. r \<in> set resources \<and> Resource_Valid r}"
    by (subst byTypeLoop_pairs) simp_all
  moreover have "(rg_ResourceType g, rg_ResourceID g) \<in> {(res_Type r, res_ID r) |r. r \<in> set resources \<and> Resource_Valid r} \<longleftrightarrow>
      row_resource g \<in> set resources \<and> Resource_Valid (row_resource g)" for g
  proof -
    have "(rg_ResourceType g, rg_ResourceID g) = (res_Type r, res_ID r) \<longleftrightarrow> row_resource g = r" for r
      by (cases r) (auto simp: row_resource_def)
    then show ?thesis by auto
  qed
  ultimately show ?thesis
    using queryByType_set [of db "byTypeLoop resources [] []" "[]" rows] assms
    by (simp add: ListResourceGrantsAt_def)
qed

lemma queryByType_healthy: "(\<And>t. db_fails db (QGrantsAt t) = None) \<Longrightarrow> \<exists>rows. queryByType db m out = Inr rows"
  by (induction db m out rule: queryByType.induct) simp_all

section \<open>The ancestors of an authority\<close>

definition parent_of :: "DB \<Rightarrow> string \<Rightarrow> string option" where
  "parent_of db c =
     (case ca_row db c of
        None \<Rightarrow> None
      | Some r \<Rightarrow> (case ca_parent_id r of None \<Rightarrow> None | Some p \<Rightarrow> if p = '''' then None else Some p))"

fun parent_chain :: "DB \<Rightarrow> string \<Rightarrow> string list \<Rightarrow> bool" where
  "parent_chain db c [] = True"
| "parent_chain db c (p # ps) = (parent_of db c = Some p \<and> parent_chain db p ps)"

lemma ancestorsLoop_Suc:
  "ancestorsLoop (Suc n) db seen cur out =
     (case db_fails db (QCAParent cur) of
        Some err \<Rightarrow> Inl err
      | None \<Rightarrow>
          (case parent_of db cur of
             None \<Rightarrow> Inr out
           | Some p \<Rightarrow> if p \<in> set seen then Inr out else ancestorsLoop n db (p # seen) p (out @ [p])))"
  by (auto simp: run_def parent_of_def split: option.splits)

declare ancestorsLoop.simps(2) [simp del]

lemmas ancestorsLoop_simps = ancestorsLoop.simps(1) ancestorsLoop_Suc

text \<open>A walk of at most \<open>n\<close> steps from \<open>cur\<close> that stops only where it must.\<close>

definition full_walk :: "nat \<Rightarrow> DB \<Rightarrow> string set \<Rightarrow> string \<Rightarrow> string list \<Rightarrow> bool" where
  "full_walk n db seen cur w \<longleftrightarrow>
     distinct w \<and> set w \<inter> seen = {} \<and> length w \<le> n \<and> parent_chain db cur w \<and>
     (length w < n \<longrightarrow> (case parent_of db (last (cur # w)) of None \<Rightarrow> True | Some p \<Rightarrow> p \<in> seen \<union> set w))"

lemma full_walk_simps:
  "full_walk 0 db seen cur w \<longleftrightarrow> w = []"
  "full_walk (Suc n) db seen cur [] \<longleftrightarrow> (case parent_of db cur of None \<Rightarrow> True | Some p \<Rightarrow> p \<in> seen)"
  "full_walk (Suc n) db seen cur (p # w) \<longleftrightarrow>
     parent_of db cur = Some p \<and> p \<notin> seen \<and> full_walk n db (insert p seen) p w"
proof -
  show "full_walk (Suc n) db seen cur (p # w) \<longleftrightarrow>
      parent_of db cur = Some p \<and> p \<notin> seen \<and> full_walk n db (insert p seen) p w"
    by (simp add: full_walk_def) (auto split: option.splits)
qed (auto simp: full_walk_def split: option.splits)

lemma ancestorsLoop_walk:
  assumes "ancestorsLoop n db seen cur out = Inr res"
  shows "\<exists>w. res = out @ w \<and> full_walk n db (set seen) cur w"
  using assms
proof (induction n arbitrary: seen cur out)
  case (Suc n)
  show ?case
  proof (cases "parent_of db cur")
    case (Some p)
    show ?thesis
    proof (cases "p \<in> set seen")
      case True
      with Suc.prems Some have "res = out @ [] \<and> full_walk (Suc n) db (set seen) cur []"
        by (simp add: ancestorsLoop_Suc full_walk_simps split: option.splits)
      then show ?thesis by blast
    next
      case False
      with Suc.prems Some have "ancestorsLoop n db (p # seen) p (out @ [p]) = Inr res"
        by (simp add: ancestorsLoop_Suc split: option.splits)
      from Suc.IH [OF this] obtain w where "res = out @ p # w" "full_walk n db (insert p (set seen)) p w"
        by auto
      with Some False have "res = out @ (p # w) \<and> full_walk (Suc n) db (set seen) cur (p # w)"
        by (simp add: full_walk_simps)
      then show ?thesis by blast
    qed
  next
    case None
    with Suc.prems have "res = out @ [] \<and> full_walk (Suc n) db (set seen) cur []"
      by (simp add: ancestorsLoop_Suc full_walk_simps split: option.splits)
    then show ?thesis by blast
  qed
qed (simp add: full_walk_simps)

lemma full_walk_unique:
  assumes "full_walk n db seen cur w" "full_walk n db seen cur v"
  shows "w = v"
  using assms
proof (induction n arbitrary: seen cur w v)
  case (Suc n)
  then show ?case
    by (cases w; cases v) (auto simp: full_walk_simps)
qed (simp add: full_walk_simps)

lemma ancestorsLoop_healthy:
  "(\<And>c. db_fails db (QCAParent c) = None) \<Longrightarrow> \<exists>res. ancestorsLoop n db seen cur out = Inr res"
proof (induction n arbitrary: seen cur out)
  case (Suc n)
  then show ?case
    by (simp only: ancestorsLoop_Suc) (auto split: option.splits)
qed simp

lemma GetCAAncestors_walk:
  "GetCAAncestors ca db = Inr out \<Longrightarrow> full_walk 32 db {ca} ca out"
  using ancestorsLoop_walk [of maxCAHierarchyDepth db "[ca]" ca "[]" out]
  by (simp add: GetCAAncestors_def maxCAHierarchyDepth_def)

lemma GetCAAncestors_healthy:
  assumes "\<And>c. db_fails db (QCAParent c) = None"
  shows "GetCAAncestors ca db = Inr out \<longleftrightarrow> full_walk 32 db {ca} ca out"
proof
  assume w: "full_walk 32 db {ca} ca out"
  obtain res where res: "GetCAAncestors ca db = Inr res"
    using ancestorsLoop_healthy [OF assms] unfolding GetCAAncestors_def by blast
  with full_walk_unique [OF w GetCAAncestors_walk [OF res]] show "GetCAAncestors ca db = Inr out"
    by simp
qed (rule GetCAAncestors_walk)

text \<open>
  C16. The ancestor walk of every authorization decision ends, whatever the parent links
  are: with a working store it returns exactly the chain of parents, nearest first,
  without repetition, up to the root, up to the first authority already on the chain
  when the links form a cycle, and never more than 32 of them.
\<close>

theorem GetCAAncestors_exact:
  assumes "\<forall>c. db_fails db (QCAParent c) = None"
  shows "\<exists>out. GetCAAncestors ca db = Inr out \<and> distinct (ca # out) \<and> length out \<le> 32 \<and> parent_chain db ca out \<and>
    (length out = 32 \<or> parent_of db (last (ca # out)) = None \<or>
     (\<exists>p\<in>set (ca # out). parent_of db (last (ca # out)) = Some p))"
proof -
  obtain out where "GetCAAncestors ca db = Inr out"
    using ancestorsLoop_healthy assms unfolding GetCAAncestors_def by blast
  moreover from GetCAAncestors_walk [OF this] have "distinct (ca # out) \<and> length out \<le> 32 \<and> parent_chain db ca out \<and>
    (length out = 32 \<or> parent_of db (last (ca # out)) = None \<or>
     (\<exists>p\<in>set (ca # out). parent_of db (last (ca # out)) = Some p))"
    by (auto simp: full_walk_def split: option.splits)
  ultimately show ?thesis by blast
qed

text \<open>A corrupt hierarchy: two authorities that name each other as parent.\<close>

definition cycle_db :: DB where
  "cycle_db = \<lparr>db_cas = [\<lparr>ca_id = ''a'', ca_tenant_id = Some ''t'', ca_parent_id = Some ''b''\<rparr>,
       \<lparr>ca_id = ''b'', ca_tenant_id = Some ''t'', ca_parent_id = Some ''a''\<rparr>],
     db_resource_grants = [], db_group_members = [], db_permissions = [], db_event_log = [], db_fails = (\<lambda>_. None)\<rparr>"

theorem GetCAAncestors_exact_witness:
  "GetCAAncestors ''a'' cycle_db = Inr [''b''] \<and>
   (\<exists>out. GetCAAncestors ''a'' cycle_db = Inr out \<and> distinct (''a'' # out) \<and> length out \<le> 32)"
proof -
  have "\<forall>c. db_fails cycle_db (QCAParent c) = None"
    by (simp add: cycle_db_def)
  from GetCAAncestors_exact [OF this, of "''a''"] show ?thesis
    by (auto simp: GetCAAncestors_def maxCAHierarchyDepth_def cycle_db_def ancestorsLoop_simps
        parent_of_def ca_row_def numeral_eq_Suc)
qed

definition demo_row :: "string \<Rightarrow> ResourceGrant" where
  "demo_row who = \<lparr>rg_ID = ''1'', rg_ResourceType = ResourceCA, rg_ResourceID = ''a'', rg_EntityType = EntityUser,
     rg_EntityID = who, rg_Role = ResourceRoleCAIssuer, rg_Scope = '''', rg_CreatedAt = 5, rg_CreatedBy = ''root''\<rparr>"

theorem grant_history_witness:
  "grant_at (db_resource_grants (foldl grant_step cycle_db
     ([] @ (\<lambda>_. None, PutReq 9 (demo_row ''eve'')) # [(\<lambda>_. None, PutReq 9 (demo_row ''bob''))])))
     (grant_key (demo_row ''eve'')) = Some (ScopeSelf, 5, ''root'')"
proof -
  have unique: "keys_unique (db_resource_grants cycle_db)"
    by (simp add: cycle_db_def keys_unique_def)
  have valid: "Grant_Validate (ResourceGrant_Grant (demo_row ''eve'')) = None"
    by code_simp
  have later: "\<forall>x\<in>set [(\<lambda>_ :: db_query. None :: string option, PutReq 9 (demo_row ''bob''))]. \<forall>op\<in>set (grant_op x).
      op \<noteq> Remove (grant_key (demo_row ''eve'')) \<and> (\<forall>r. op = Write r \<longrightarrow> grant_key r \<noteq> grant_key (demo_row ''eve''))"
    by (simp add: grant_op_def) (simp add: grant_key_def demo_row_def)
  show ?thesis
    using grant_history [where fails = "\<lambda>_. None" and earlier = "[]" and now = 9, OF unique valid refl later refl]
    by (simp add: demo_row_def ResourceGrant_Grant_def Normalized_def zero_time_def)
qed

end
