(* ===== verification/Authz.thy ===== *)
theory Authz
  imports Grant_Store
begin

text \<open>
  Authorization at the request layer: \<^verbatim>\<open>server/internal/handlers/grants.go\<close> and the
  decision functions of \<^verbatim>\<open>server/internal/handlers/rbac_audit.go\<close>. The API value carries
  the configured grants, the principal resolver, the database and the authorization
  metric; the request context carries the caller, the tenant holder and the request
  identifier. A handler returns its reply together with both.
\<close>

section \<open>State\<close>

record API =
  a_configGrants :: "Grant list option"
  a_principalResolver :: "(string \<Rightarrow> string list \<Rightarrow> string list \<times> (string \<rightharpoonup> string list)) option"
  a_db :: DB
  a_metrics :: "(Action \<times> bool) list"

record Ctx =
  cx_UserInfo :: "UserInfo option"
  cx_tenantHolder :: "string option"
  cx_RequestID :: string

definition SetTenant :: "Ctx \<Rightarrow> string \<Rightarrow> Ctx" where
  "SetTenant cx tenantID = (case cx_tenantHolder cx of None \<Rightarrow> cx | Some _ \<Rightarrow> cx\<lparr>cx_tenantHolder := Some tenantID\<rparr>)"

definition GetTenant :: "Ctx \<Rightarrow> string" where
  "GetTenant cx = (case cx_tenantHolder cx of None \<Rightarrow> '''' | Some t \<Rightarrow> t)"

definition RecordAuthz :: "Action \<Rightarrow> bool \<Rightarrow> API \<Rightarrow> API" where
  "RecordAuthz action allowed a = a\<lparr>a_metrics := a_metrics a @ [(action, allowed)]\<rparr>"

section \<open>Platform and tenant standing\<close>

definition userRoles :: "UserInfo option \<Rightarrow> Role list" where
  "userRoles user = (case user of None \<Rightarrow> [] | Some u \<Rightarrow> ui_Roles u)"

definition decide :: "UserInfo option \<Rightarrow> Action \<Rightarrow> bool" where
  "decide user action =
     (case user of None \<Rightarrow> False | Some u \<Rightarrow> if ui_IsRoot u then True else Can (userRoles user) action)"

definition API_can :: "UserInfo option \<Rightarrow> Action \<Rightarrow> API \<Rightarrow> bool \<times> API" where
  "API_can user action a = (let allowed = decide user action in (allowed, RecordAuthz action allowed a))"

definition tenantRolesFor :: "UserInfo option \<Rightarrow> string \<Rightarrow> Role list" where
  "tenantRolesFor user tenantID =
     (case user of None \<Rightarrow> [] | Some u \<Rightarrow> if tenantID = '''' then [] else lookup (ui_TenantRoles u) tenantID)"

definition decideInTenant :: "UserInfo option \<Rightarrow> string \<Rightarrow> Action \<Rightarrow> bool" where
  "decideInTenant user tenantID action =
     (case user of
        None \<Rightarrow> False
      | Some u \<Rightarrow>
          if ui_IsRoot u then True
          else if Can (userRoles user) action then True
          else Can (tenantRolesFor user tenantID) action)"

definition canInTenant :: "UserInfo option \<Rightarrow> string \<Rightarrow> Action \<Rightarrow> API \<Rightarrow> bool \<times> API" where
  "canInTenant user tenantID action a =
     (let allowed = decideInTenant user tenantID action in (allowed, RecordAuthz action allowed a))"

definition isTenantMember :: "UserInfo option \<Rightarrow> string \<Rightarrow> bool" where
  "isTenantMember user tenantID =
     (case user of
        None \<Rightarrow> False
      | Some u \<Rightarrow>
          if ui_IsRoot u \<or> length (ui_Roles u) > 0 then True
          else length (lookup (ui_TenantRoles u) tenantID) > 0)"

text \<open>The walk lists the keys of the tenant map in the order of the iteration.\<close>

definition canReadAnyTenant :: "string list \<Rightarrow> UserInfo option \<Rightarrow> bool" where
  "canReadAnyTenant walk user =
     (if decide user ActionReadAudit then True
      else case user of
        None \<Rightarrow> False
      | Some u \<Rightarrow> list_ex (\<lambda>tid. Can (tenantRolesFor user tid) ActionReadAudit)
          (filter (\<lambda>tid. ui_TenantRoles u tid \<noteq> None) walk))"

definition canRead :: "string list \<Rightarrow> UserInfo option \<Rightarrow> API \<Rightarrow> bool \<times> API" where
  "canRead walk user a =
     (let allowed = canReadAnyTenant walk user in (allowed, RecordAuthz ActionReadAudit allowed a))"

section \<open>Grants on one resource\<close>

definition SetResourceGrants :: "Grant list \<Rightarrow> API \<Rightarrow> API" where
  "SetResourceGrants grants a = a\<lparr>a_configGrants := Some grants\<rparr>"

definition configuredGrants :: "API \<Rightarrow> Grant list" where
  "configuredGrants a = (case a_configGrants a of Some p \<Rightarrow> p | None \<Rightarrow> [])"

definition identityFor :: "API \<Rightarrow> UserInfo option \<Rightarrow> Identity" where
  "identityFor a user =
     (case user of
        None \<Rightarrow> \<lparr>id_Subject = '''', id_Email = '''', id_EmailVerified = False, id_Groups = []\<rparr>
      | Some u \<Rightarrow>
          let id = \<lparr>id_Subject = ui_Subject u, id_Email = ui_Email u, id_EmailVerified = ui_EmailVerified u,
                    id_Groups = ui_Groups u\<rparr>
          in case GetUserGroups (ui_Subject u) (a_db a) of
               Inr internal \<Rightarrow> id\<lparr>id_Groups := id_Groups id @ internal\<rparr>
             | Inl err \<Rightarrow> id)"

definition grantSetAt :: "API \<Rightarrow> Resource \<Rightarrow> Resource list \<Rightarrow> (string, GrantSet) result" where
  "grantSetAt a res ancestors =
     (let scope = res # ancestors;
          inScope = map Resource_String scope;
          grants = filter (\<lambda>g. Resource_String (g_Resource g) \<in> set inScope) (configuredGrants a)
      in case ListResourceGrantsAt scope (a_db a) of
           Inl err \<Rightarrow> Inl err
         | Inr stored \<Rightarrow> Inr (NewGrantSet (grants @ map ResourceGrant_Grant stored)))"

definition caAncestry :: "API \<Rightarrow> Resource \<Rightarrow> (string, Resource list) result" where
  "caAncestry a res =
     (if res_Type res \<noteq> ResourceCA then Inr []
      else case GetCAAncestors (res_ID res) (a_db a) of
        Inl err \<Rightarrow> Inl err
      | Inr ids \<Rightarrow> Inr (map (\<lambda>i. \<lparr>res_Type = ResourceCA, res_ID = i\<rparr>) ids))"

definition grantAllows :: "API \<Rightarrow> UserInfo option \<Rightarrow> Resource \<Rightarrow> Action \<Rightarrow> bool" where
  "grantAllows a user res action =
     (if user = None \<or> \<not> Resource_Valid res then False
      else case caAncestry a res of
        Inl err \<Rightarrow> False
      | Inr ancestors \<Rightarrow>
          (case grantSetAt a res ancestors of
             Inl err \<Rightarrow> False
           | Inr gs \<Rightarrow> Allows (Some gs) res ancestors (identityFor a user) action))"

definition canOnResource :: "UserInfo option \<Rightarrow> Resource \<Rightarrow> string \<Rightarrow> Action \<Rightarrow> API \<Rightarrow> bool \<times> API" where
  "canOnResource user res tenantID action a =
     (let allowed = decideInTenant user tenantID action \<or> grantAllows a user res action
      in (allowed, RecordAuthz action allowed a))"

definition canOnCA :: "UserInfo option \<Rightarrow> string \<Rightarrow> Action \<Rightarrow> API \<Rightarrow> Ctx \<Rightarrow> (string, bool \<times> bool) result \<times> API \<times> Ctx" where
  "canOnCA user caID action a cx =
     (case GetCATenant caID (a_db a) of
        Inl err \<Rightarrow> (Inl err, a, cx)
      | Inr tenantID \<Rightarrow>
          if tenantID = '''' then (Inr (False, True), a, cx)
          else
            let cx = SetTenant cx tenantID;
                (allowed, a) = canOnResource user \<lparr>res_Type = ResourceCA, res_ID = caID\<rparr> tenantID action a
            in (Inr (allowed, False), a, cx))"

definition canOnSigningKey :: "Ctx \<Rightarrow> string \<Rightarrow> string \<Rightarrow> Action \<Rightarrow> API \<Rightarrow> bool \<times> API" where
  "canOnSigningKey cx tenantID keyName action a =
     (let user = cx_UserInfo cx;
          res = \<lparr>res_Type = ResourceSigningKey, res_ID = keyName\<rparr>
      in if keyName = '''' then canInTenant user tenantID action a
         else canOnResource user res tenantID action a)"

text \<open>A permission check dereferences the caller, so it faults without one.\<close>

datatype perm_error = NilUser | PermLookup string

definition checkPermission :: "API \<Rightarrow> UserInfo option \<Rightarrow> string \<Rightarrow> Permission \<Rightarrow> (perm_error, bool) result" where
  "checkPermission a user caID perm =
     (case user of
        None \<Rightarrow> Inl NilUser
      | Some u \<Rightarrow>
          if ui_IsRoot u then Inr True
          else case GetUserGroups (ui_Subject u) (a_db a) of
            Inl err \<Rightarrow> Inl (PermLookup err)
          | Inr groupIDs \<Rightarrow>
              (case HasPermission caID (ui_Subject u) perm groupIDs (a_db a) of
                 Inl err \<Rightarrow> Inl (PermLookup err)
               | Inr ok \<Rightarrow> Inr ok))"

definition canIssueOn :: "UserInfo option \<Rightarrow> string \<Rightarrow> API \<Rightarrow> Ctx \<Rightarrow> (perm_error, bool) result \<times> API \<times> Ctx" where
  "canIssueOn user caID a cx =
     (case GetCATenant caID (a_db a) of
        Inl err \<Rightarrow> (Inl (PermLookup err), a, cx)
      | Inr tenantID \<Rightarrow>
          let cx = (if tenantID \<noteq> '''' then SetTenant cx tenantID else cx) in
          if tenantID = '''' then (let (allowed, a) = API_can user ActionIssue a in (Inr allowed, a, cx))
          else
            let (allowed, a) = canOnResource user \<lparr>res_Type = ResourceCA, res_ID = caID\<rparr> tenantID ActionIssue a
            in if allowed then (Inr True, a, cx)
               else (checkPermission a user caID PermSignCertificate, a, cx))"

definition canConfigureCA :: "UserInfo option \<Rightarrow> string \<Rightarrow> API \<Rightarrow> (perm_error, bool) result" where
  "canConfigureCA user caID a =
     (if grantAllows a user \<lparr>res_Type = ResourceCA, res_ID = caID\<rparr> ActionConfigureCA then Inr True
      else checkPermission a user caID PermConfigureCA)"

section \<open>Visibility\<close>

definition allGrants :: "API \<Rightarrow> (string, Grant list) result" where
  "allGrants a =
     (case ListAllResourceGrants (a_db a) of
        Inl err \<Rightarrow> Inl err
      | Inr stored \<Rightarrow> Inr (configuredGrants a @ map ResourceGrant_Grant stored))"

text \<open>A set of names is the list of its elements; the walk is that of the grant index.\<close>

definition signingKeysVisibleByGrant :: "string list \<Rightarrow> API \<Rightarrow> UserInfo option \<Rightarrow> string list" where
  "signingKeysVisibleByGrant walk a user =
     (if user = None then []
      else case allGrants a of
        Inl err \<Rightarrow> []
      | Inr grants \<Rightarrow>
          let gs = NewGrantSet grants in
          if GrantSet_Empty (Some gs) then []
          else ResourcesFor walk (Some gs) ResourceSigningKey (identityFor a user))"

definition DB_ListCAs :: "DB \<Rightarrow> (string, cas_row list) result" where
  "DB_ListCAs db = run db QListCAs (db_cas db)"

fun expandVisible :: "API \<Rightarrow> GrantSet \<Rightarrow> Identity \<Rightarrow> cas_row list \<Rightarrow> string list \<Rightarrow> string list" where
  "expandVisible a gs who [] out = out"
| "expandVisible a gs who (c # cs) out =
     (if ca_id c \<in> set out then expandVisible a gs who cs out
      else case caAncestry a \<lparr>res_Type = ResourceCA, res_ID = ca_id c\<rparr> of
        Inl err \<Rightarrow> expandVisible a gs who cs out
      | Inr ancestors \<Rightarrow>
          if Allows (Some gs) \<lparr>res_Type = ResourceCA, res_ID = ca_id c\<rparr> ancestors who ActionReadAudit
          then expandVisible a gs who cs (out @ [ca_id c])
          else expandVisible a gs who cs out)"

definition visibleCAIDsFromGrants :: "string list \<Rightarrow> API \<Rightarrow> UserInfo option \<Rightarrow> ResourceType \<Rightarrow> string list" where
  "visibleCAIDsFromGrants walk a user t =
     (if user = None then []
      else case allGrants a of
        Inl err \<Rightarrow> []
      | Inr grants \<Rightarrow>
          let gs = NewGrantSet grants in
          if GrantSet_Empty (Some gs) then []
          else
            let id = identityFor a user;
                out = ResourcesFor walk (Some gs) t id
            in if t = ResourceCA \<and> length out > 0 then
                 (case DB_ListCAs (a_db a) of
                    Inl err \<Rightarrow> out
                  | Inr cas \<Rightarrow> expandVisible a gs id cas out)
               else out)"

section \<open>Explaining a decision\<close>

definition effectiveAccess ::
  "string list \<Rightarrow> API \<Rightarrow> UserInfo option \<Rightarrow> Resource \<Rightarrow> string \<Rightarrow> (string, EffectiveResourceAccess) result" where
  "effectiveAccess walk a user res tenantID =
     (let out = \<lparr>ea_Resource = Resource_String res, ea_Subject = '''', ea_TenantID = tenantID, ea_IsRoot = False,
                 ea_PlatformRoles = [], ea_TenantRoles = [], ea_ResourceRoles = [], ea_Actions = [], ea_Grants = []\<rparr>
      in case user of
        None \<Rightarrow> Inr out
      | Some u \<Rightarrow>
          let out = out\<lparr>ea_Subject := ui_Subject u, ea_IsRoot := ui_IsRoot u, ea_PlatformRoles := ui_Roles u\<rparr>;
              out = (if tenantID \<noteq> '''' then out\<lparr>ea_TenantRoles := lookup (ui_TenantRoles u) tenantID\<rparr> else out)
          in case caAncestry a res of
               Inl err \<Rightarrow> Inl err
             | Inr ancestors \<Rightarrow>
                 (case grantSetAt a res ancestors of
                    Inl err \<Rightarrow> Inl err
                  | Inr gs \<Rightarrow>
                      let id = identityFor a user;
                          out = out\<lparr>ea_ResourceRoles := GrantSet_RolesFor (Some gs) res ancestors id,
                                    ea_Grants := filter (Matches id) (All_grants walk (Some gs))\<rparr>;
                          actions = filter (\<lambda>act. decideInTenant user tenantID act \<or>
                                       Allows (Some gs) res ancestors id act) AllActions
                      in Inr (out\<lparr>ea_Actions := sort actions\<rparr>)))"

section \<open>Audit records\<close>

text \<open>
  The inputs of a request that do not come from the state: the time, the client
  address, and the random identifiers of a stored grant and of an audit record.
\<close>

record Req =
  rq_now :: time
  rq_ip :: string
  rq_grantID :: string
  rq_eventID :: string

definition ResultSuccess :: string where "ResultSuccess = ''success''"
definition ResultDenied :: string where "ResultDenied = ''denied''"
definition ResultError :: string where "ResultError = ''error''"
definition ActionResourceGrant :: string where "ActionResourceGrant = ''resource.grant''"
definition ActionResourceRevoke :: string where "ActionResourceRevoke = ''resource.revoke''"

definition recordEventCtx ::
  "hash_fn \<Rightarrow> Req \<Rightarrow> Ctx \<Rightarrow> string \<Rightarrow> string \<Rightarrow> string \<Rightarrow> string \<Rightarrow> string \<Rightarrow> string \<Rightarrow> API \<Rightarrow> API" where
  "recordEventCtx sha256 rq cx ip action target targetName outcome detail a =
     (let e = \<lparr>ev_Seq = 0, ev_ID = rq_eventID rq, ev_Timestamp = zero_time, ev_Actor = '''', ev_ActorName = '''',
               ev_ActorRoles = '''', ev_Action = action, ev_Tenant = GetTenant cx, ev_Target = target,
               ev_TargetName = targetName, ev_Result = outcome, ev_Detail = detail, ev_IP = ip,
               ev_RequestID = cx_RequestID cx, ev_PrevHash = '''', ev_Hash = ''''\<rparr>;
          e = (case cx_UserInfo cx of
                 None \<Rightarrow> e
               | Some u \<Rightarrow> e\<lparr>ev_Actor := ui_Subject u, ev_ActorName := ui_Name u,
                   ev_ActorRoles := (if ui_IsRoot u then ''root'' else JoinRoles (userRoles (cx_UserInfo cx)))\<rparr>)
      in a\<lparr>a_db := (a_db a)\<lparr>db_event_log :=
             snd (AppendEvent sha256 (db_fails (a_db a) XAppendEvent = None) (rq_now rq) e (db_event_log (a_db a)))\<rparr>\<rparr>)"

definition recordEvent ::
  "hash_fn \<Rightarrow> Req \<Rightarrow> Ctx \<Rightarrow> string \<Rightarrow> string \<Rightarrow> string \<Rightarrow> string \<Rightarrow> string \<Rightarrow> API \<Rightarrow> API" where
  "recordEvent sha256 rq cx action target targetName outcome detail a =
     recordEventCtx sha256 rq cx (rq_ip rq) action target targetName outcome detail a"

section \<open>Grant administration\<close>

text \<open>A reply: an HTTP status with what went wrong, or the value that is encoded.\<close>

datatype problem =
    InvalidJSON | ResourceRequired | BadResource parse_error | LookupFailed string | NotFound
  | Forbidden | InvalidRule grant_error | SubtreeExceedsScope | StoreFailed | DeclaredInConfig | NoSuchGrant
  | TenantRequired | NotAMember

datatype reply =
    Refuse nat problem
  | Granted ResourceGrant
  | Revoked
  | GrantList "(ResourceGrant \<times> string) list"
  | Effective EffectiveResourceAccess
  | EventPage "Event list" nat nat nat
  | Verified nat VerifyResult

definition authorizeCAManage ::
  "hash_fn \<Rightarrow> Req \<Rightarrow> string \<Rightarrow> string \<Rightarrow> API \<Rightarrow> Ctx \<Rightarrow> (reply, string) result \<times> API \<times> Ctx" where
  "authorizeCAManage sha256 rq caID action a cx =
     (let user = cx_UserInfo cx in
      case GetCATenant caID (a_db a) of
        Inl err \<Rightarrow> (Inl (Refuse 500 (LookupFailed err)), a, cx)
      | Inr tenantID \<Rightarrow>
          if tenantID = '''' then (Inl (Refuse 404 NotFound), a, cx)
          else
            let cx = SetTenant cx tenantID;
                (allowed, a) = canOnResource user \<lparr>res_Type = ResourceCA, res_ID = caID\<rparr> tenantID ActionManageCA a
            in if \<not> allowed then
                 (Inl (Refuse 403 Forbidden),
                  if action \<noteq> '''' then
                    recordEvent sha256 rq cx action caID '''' ResultDenied (ActionManageCA @ '' capability required'') a
                  else a, cx)
               else (Inr tenantID, a, cx))"

definition resolveGrantResource :: "API \<Rightarrow> Ctx \<Rightarrow> string \<Rightarrow> (problem, Resource \<times> string \<times> bool) result" where
  "resolveGrantResource a cx spec =
     (case ParseResource spec of
        Inl e \<Rightarrow> Inl (BadResource e)
      | Inr res \<Rightarrow>
          let default = (\<lambda>tenantID. if tenantID = '''' then DefaultTenantID else tenantID) in
          if res_Type res = ResourceCA then
            (case GetCATenant (res_ID res) (a_db a) of
               Inl err \<Rightarrow> Inl (LookupFailed err)
             | Inr tenantID \<Rightarrow> if tenantID = '''' then Inr (res, '''', True) else Inr (res, default tenantID, False))
          else if res_Type res = ResourceSigningKey then Inr (res, default (GetTenant cx), False)
          else Inr (res, default '''', False))"

definition authorizeGrantAdmin :: "string \<Rightarrow> API \<Rightarrow> Ctx \<Rightarrow> (reply, Resource) result \<times> API \<times> Ctx" where
  "authorizeGrantAdmin spec a cx =
     (let user = cx_UserInfo cx in
      case resolveGrantResource a cx spec of
        Inl e \<Rightarrow> (Inl (Refuse 400 e), a, cx)
      | Inr (res, tenantID, notFound) \<Rightarrow>
          if notFound then (Inl (Refuse 404 NotFound), a, cx)
          else
            let cx = SetTenant cx tenantID;
                (allowed, a) = canInTenant user tenantID ActionManageRBAC a
            in if allowed then (Inr res, a, cx)
               else if grantAllows a user res ActionDelegate then (Inr res, RecordAuthz ActionDelegate True a, cx)
               else (Inl (Refuse 403 Forbidden), RecordAuthz ActionDelegate False a, cx))"

definition config_entry :: "Grant \<Rightarrow> ResourceGrant" where
  "config_entry g = \<lparr>rg_ID = '''', rg_ResourceType = res_Type (g_Resource g), rg_ResourceID = res_ID (g_Resource g),
     rg_EntityType = g_EntityType g, rg_EntityID = g_EntityID g, rg_Role = g_Role g, rg_Scope = g_Scope g,
     rg_CreatedAt = zero_time, rg_CreatedBy = ''''\<rparr>"

definition ListResourceGrants :: "string \<Rightarrow> API \<Rightarrow> Ctx \<Rightarrow> reply \<times> API \<times> Ctx" where
  "ListResourceGrants spec a cx =
     (if spec = '''' then (Refuse 400 ResourceRequired, a, cx)
      else case authorizeGrantAdmin spec a cx of
        (Inl r, a, cx) \<Rightarrow> (r, a, cx)
      | (Inr res, a, cx) \<Rightarrow>
          (case DB_ListResourceGrants res (a_db a) of
             Inl err \<Rightarrow> (Refuse 500 StoreFailed, a, cx)
           | Inr stored \<Rightarrow>
               (GrantList (map (\<lambda>g. (g, ''database'')) stored @
                  map (\<lambda>g. (config_entry g, ''config'')) (filter (\<lambda>g. g_Resource g = res) (configuredGrants a))),
                a, cx)))"

definition holdsSubtreeDelegation :: "string list \<Rightarrow> API \<Rightarrow> UserInfo option \<Rightarrow> Resource \<Rightarrow> bool" where
  "holdsSubtreeDelegation walk a user res =
     (case caAncestry a res of
        Inl err \<Rightarrow> False
      | Inr ancestors \<Rightarrow>
          (case grantSetAt a res ancestors of
             Inl err \<Rightarrow> False
           | Inr gs \<Rightarrow>
               let id = identityFor a user in
               list_ex (\<lambda>g. g_Scope g = ScopeSubtree \<and> Matches id g \<and> ResourceRoleGrants (g_Role g) ActionDelegate)
                 (All_grants walk (Some gs))))"

text \<open>\<open>errText\<close> renders the error of the store for the audit record.\<close>

definition CreateResourceGrant ::
  "hash_fn \<Rightarrow> (put_error \<Rightarrow> string) \<Rightarrow> string list \<Rightarrow> Req \<Rightarrow> ResourceGrantRequest option \<Rightarrow> API \<Rightarrow> Ctx \<Rightarrow> reply \<times> API \<times> Ctx" where
  "CreateResourceGrant sha256 errText walk rq body a cx =
     (case body of
        None \<Rightarrow> (Refuse 400 InvalidJSON, a, cx)
      | Some req \<Rightarrow>
          (case authorizeGrantAdmin (rq_Resource req) a cx of
             (Inl r, a, cx) \<Rightarrow> (r, a, cx)
           | (Inr res, a, cx) \<Rightarrow>
               let entry = \<lparr>rg_ID = rq_grantID rq, rg_ResourceType = res_Type res, rg_ResourceID = res_ID res,
                            rg_EntityType = rq_EntityType req, rg_EntityID = rq_EntityID req, rg_Role = rq_Role req,
                            rg_Scope = rq_Scope req, rg_CreatedAt = zero_time, rg_CreatedBy = ''''\<rparr>
               in case Grant_Validate (ResourceGrant_Grant entry) of
                    Some e \<Rightarrow> (Refuse 400 (InvalidRule e), a, cx)
                  | None \<Rightarrow>
                      let user = cx_UserInfo cx;
                          (manages, a) = canInTenant user (GetTenant cx) ActionManageRBAC a
                      in if \<not> manages \<and> rq_Scope req = ScopeSubtree \<and>
                            (\<not> grantAllows a user res ActionDelegate \<or> \<not> holdsSubtreeDelegation walk a user res)
                         then (Refuse 403 SubtreeExceedsScope,
                           recordEvent sha256 rq cx ActionResourceGrant (res_ID res) (rq_EntityID req) ResultDenied
                             ''subtree delegation exceeds the delegator's own scope'' a, cx)
                         else
                           case PutResourceGrant (rq_now rq) entry (a_db a) of
                             (Inl e, db) \<Rightarrow>
                               (Refuse 500 StoreFailed,
                                recordEvent sha256 rq cx ActionResourceGrant (res_ID res) (rq_EntityID req) ResultError
                                  (errText e) (a\<lparr>a_db := db\<rparr>), cx)
                           | (Inr entry, db) \<Rightarrow>
                               (Granted entry,
                                recordEvent sha256 rq cx ActionResourceGrant (res_ID res) (rq_EntityID req) ResultSuccess
                                  (rg_Role entry @ '' on '' @ Resource_String res @ '' to '' @ rg_EntityType entry @ '':'' @
                                   rg_EntityID entry @ '' (scope '' @ rg_Scope entry @ '')'') (a\<lparr>a_db := db\<rparr>), cx)))"

definition DeleteResourceGrant ::
  "hash_fn \<Rightarrow> Req \<Rightarrow> ResourceGrantRequest option \<Rightarrow> API \<Rightarrow> Ctx \<Rightarrow> reply \<times> API \<times> Ctx" where
  "DeleteResourceGrant sha256 rq body a cx =
     (case body of
        None \<Rightarrow> (Refuse 400 InvalidJSON, a, cx)
      | Some req \<Rightarrow>
          (case authorizeGrantAdmin (rq_Resource req) a cx of
             (Inl r, a, cx) \<Rightarrow> (r, a, cx)
           | (Inr res, a, cx) \<Rightarrow>
               if \<not> ValidEntityType (rq_EntityType req) then (Refuse 400 (InvalidRule BadEntityType), a, cx)
               else
                 case DB_DeleteResourceGrant res (rq_EntityType req) (rq_EntityID req) (rq_Role req) (a_db a) of
                   (Inl err, db) \<Rightarrow>
                     (Refuse 500 StoreFailed,
                      recordEvent sha256 rq cx ActionResourceRevoke (res_ID res) (rq_EntityID req) ResultError err
                        (a\<lparr>a_db := db\<rparr>), cx)
                 | (Inr removed, db) \<Rightarrow>
                     let a = a\<lparr>a_db := db\<rparr> in
                     if \<not> removed then
                       (if list_ex (\<lambda>g. g_Resource g = res \<and> g_EntityType g = rq_EntityType req \<and>
                             g_EntityID g = rq_EntityID req \<and> g_Role g = rq_Role req) (configuredGrants a)
                        then (Refuse 409 DeclaredInConfig, a, cx)
                        else (Refuse 404 NoSuchGrant, a, cx))
                     else
                       (Revoked,
                        recordEvent sha256 rq cx ActionResourceRevoke (res_ID res) (rq_EntityID req) ResultSuccess
                          (rq_Role req @ '' on '' @ Resource_String res @ '' from '' @ rq_EntityType req @ '':'' @
                           rq_EntityID req) a, cx)))"

definition principalForSubject :: "API \<Rightarrow> string \<Rightarrow> UserInfo" where
  "principalForSubject a subject =
     (let u = \<lparr>ui_Subject = subject, ui_Email = '''', ui_EmailVerified = False, ui_Name = '''', ui_IsRoot = False,
               ui_Roles = [], ui_TenantRoles = Map.empty, ui_Groups = [], ui_AuthProvider = ''''\<rparr>;
          u = (case GetUserGroups subject (a_db a) of Inr groups \<Rightarrow> u\<lparr>ui_Groups := groups\<rparr> | Inl err \<Rightarrow> u)
      in case a_principalResolver a of
           None \<Rightarrow> u
         | Some resolve \<Rightarrow>
             let (roles, tenantRoles) = resolve subject (ui_Groups u)
             in u\<lparr>ui_Roles := roles, ui_TenantRoles := tenantRoles\<rparr>)"

definition EffectiveAccessHandler ::
  "string list \<Rightarrow> string \<Rightarrow> string \<Rightarrow> API \<Rightarrow> Ctx \<Rightarrow> reply \<times> API \<times> Ctx" where
  "EffectiveAccessHandler walk spec subject a cx =
     (if spec = '''' then (Refuse 400 ResourceRequired, a, cx)
      else
        let user = cx_UserInfo cx in
        case resolveGrantResource a cx spec of
          Inl e \<Rightarrow> (Refuse 400 e, a, cx)
        | Inr (res, tenantID, notFound) \<Rightarrow>
            if notFound then (Refuse 404 NotFound, a, cx)
            else
              let cx = SetTenant cx tenantID;
                  answer = (\<lambda>target a cx. case effectiveAccess walk a target res tenantID of
                              Inl err \<Rightarrow> (Refuse 500 (LookupFailed err), a, cx)
                            | Inr eff \<Rightarrow> (Effective eff, a, cx))
              in if subject \<noteq> '''' \<and> (case user of None \<Rightarrow> True | Some u \<Rightarrow> subject \<noteq> ui_Subject u) then
                   (case authorizeGrantAdmin spec a cx of
                      (Inl r, a, cx) \<Rightarrow> (r, a, cx)
                    | (Inr _, a, cx) \<Rightarrow> answer (Some (principalForSubject a subject)) a cx)
                 else
                   let (allowed, a) = canOnResource user res tenantID ActionReadAudit a
                   in if \<not> allowed then (Refuse 403 Forbidden, a, cx) else answer user a cx)"

section \<open>Reading the event log\<close>

definition digit_value :: "char \<Rightarrow> int option" where
  "digit_value c = (let n = (of_char c :: int) in if 48 \<le> n \<and> n \<le> 57 then Some (n - 48) else None)"

fun digits_value :: "int \<Rightarrow> string \<Rightarrow> int option" where
  "digits_value acc [] = Some acc"
| "digits_value acc (c # cs) = (case digit_value c of None \<Rightarrow> None | Some d \<Rightarrow> digits_value (10 * acc + d) cs)"

definition Atoi :: "string \<Rightarrow> int option" where
  "Atoi s =
     (let (neg, ds) = (case s of c # cs \<Rightarrow> if c = CHR ''-'' then (True, cs) else if c = CHR ''+'' then (False, cs) else (False, s)
                       | [] \<Rightarrow> (False, []))
      in if ds = [] then None
         else case digits_value 0 ds of
           None \<Rightarrow> None
         | Some n \<Rightarrow>
             let v = (if neg then - n else n) in
             if - (2 ^ 63) \<le> v \<and> v < 2 ^ 63 then Some v else None)"

record EventQuery =
  eq_action :: string
  eq_actor :: string
  eq_tenant :: string
  eq_limit :: string
  eq_offset :: string

definition page_limit :: "string \<Rightarrow> nat" where
  "page_limit v =
     (if v \<noteq> '''' then (case Atoi v of Some n \<Rightarrow> if n > 0 \<and> n \<le> 500 then nat n else 50 | None \<Rightarrow> 50) else 50)"

definition page_offset :: "string \<Rightarrow> nat" where
  "page_offset v =
     (if v \<noteq> '''' then (case Atoi v of Some n \<Rightarrow> if n \<ge> 0 then nat n else 0 | None \<Rightarrow> 0) else 0)"

text \<open>
  The tenant the page is confined to: a platform principal may choose it, a tenant
  principal may not leave its own tenants.
\<close>

definition tenantScope :: "string list \<Rightarrow> UserInfo \<Rightarrow> string \<Rightarrow> (reply, string) result" where
  "tenantScope walk u tenantFilter =
     (if \<not> ui_IsRoot u \<and> length (ui_Roles u) = 0 then
        (case TenantsWithRoles walk (Some u) of
           [] \<Rightarrow> Inl (Refuse 403 NotAMember)
         | [t] \<Rightarrow> Inr t
         | _ \<Rightarrow>
             if tenantFilter = '''' then Inl (Refuse 400 TenantRequired)
             else if length (lookup (ui_TenantRoles u) tenantFilter) = 0 then Inl (Refuse 403 NotAMember)
             else Inr tenantFilter)
      else Inr tenantFilter)"

definition ListEventLog :: "string list \<Rightarrow> EventQuery \<Rightarrow> API \<Rightarrow> Ctx \<Rightarrow> reply \<times> API \<times> Ctx" where
  "ListEventLog walk q a cx =
     (let user = cx_UserInfo cx; (readable, a) = canRead walk user a in
      if \<not> readable then (Refuse 403 Forbidden, a, cx)
      else case user of
        None \<Rightarrow> (Refuse 403 Forbidden, a, cx)
      | Some u \<Rightarrow>
          (case tenantScope walk u (eq_tenant q) of
             Inl r \<Rightarrow> (r, a, cx)
           | Inr tenantFilter \<Rightarrow>
               (case ListEvents (eq_action q) (eq_actor q) tenantFilter (page_limit (eq_limit q))
                        (page_offset (eq_offset q)) (a_db a) of
                  Inl err \<Rightarrow> (Refuse 500 (LookupFailed err), a, cx)
                | Inr (entries, matched) \<Rightarrow>
                    (EventPage entries matched (page_limit (eq_limit q)) (page_offset (eq_offset q)), a, cx))))"

definition VerifyEventLog :: "hash_fn \<Rightarrow> API \<Rightarrow> Ctx \<Rightarrow> reply \<times> API \<times> Ctx" where
  "VerifyEventLog sha256 a cx =
     (let (allowed, a) = API_can (cx_UserInfo cx) ActionReadAudit a in
      if \<not> allowed then (Refuse 403 Forbidden, a, cx)
      else case VerifyEventChain sha256 (a_db a) of
        Inl err \<Rightarrow> (Refuse 500 (LookupFailed err), a, cx)
      | Inr res \<Rightarrow> (Verified (if \<not> vr_Valid res then 409 else 200) res, a, cx))"

section \<open>What the rules say\<close>

text \<open>All rules in force: the configured ones and the stored ones.\<close>

definition rules :: "API \<Rightarrow> Grant list" where
  "rules a = configuredGrants a @ map ResourceGrant_Grant (db_resource_grants (a_db a))"

lemma RecordAuthz_simps [simp]:
  "a_db (RecordAuthz act ok a) = a_db a"
  "a_configGrants (RecordAuthz act ok a) = a_configGrants a"
  "a_principalResolver (RecordAuthz act ok a) = a_principalResolver a"
  by (simp_all add: RecordAuthz_def)

lemma decision_cong:
  assumes "a_db a = a_db b" "a_configGrants a = a_configGrants b"
  shows "grantAllows a user res act = grantAllows b user res act" "rules a = rules b"
    "identityFor a user = identityFor b user" "caAncestry a res = caAncestry b res"
    "grantSetAt a res anc = grantSetAt b res anc"
    "holdsSubtreeDelegation walk a user res = holdsSubtreeDelegation walk b user res"
  unfolding grantAllows_def rules_def identityFor_def caAncestry_def grantSetAt_def
    holdsSubtreeDelegation_def configuredGrants_def assms by (rule refl)+

lemma Record_decision [simp]:
  "grantAllows (RecordAuthz x y a) user res act = grantAllows a user res act"
  "rules (RecordAuthz x y a) = rules a"
  "identityFor (RecordAuthz x y a) user = identityFor a user"
  "caAncestry (RecordAuthz x y a) res = caAncestry a res"
  "grantSetAt (RecordAuthz x y a) res anc = grantSetAt a res anc"
  "holdsSubtreeDelegation walk (RecordAuthz x y a) user res = holdsSubtreeDelegation walk a user res"
  by (rule decision_cong; simp)+

lemma ResourceGrant_Grant_simps [simp]:
  "g_Resource (ResourceGrant_Grant g) = row_resource g" "g_Role (ResourceGrant_Grant g) = rg_Role g"
  "g_EntityType (ResourceGrant_Grant g) = rg_EntityType g" "g_EntityID (ResourceGrant_Grant g) = rg_EntityID g"
  by (simp_all add: ResourceGrant_Grant_def row_resource_def Normalized_def)

lemma parent_chain_nonempty: "parent_chain db c ps \<Longrightarrow> '''' \<notin> set ps"
  by (induction ps arbitrary: c) (auto simp: parent_of_def split: option.splits if_splits)

lemma ResourceCA_valid [simp]: "Resource_Valid \<lparr>res_Type = ResourceCA, res_ID = i\<rparr> \<longleftrightarrow> i \<noteq> ''''"
  by (simp add: Resource_Valid_def ValidResourceType_def AllResourceTypes_def)

lemma caAncestry_valid:
  assumes "caAncestry a res = Inr anc"
  shows "list_all Resource_Valid anc" "\<forall>r\<in>set anc. res_Type r = res_Type res"
proof -
  have "\<exists>ids. GetCAAncestors (res_ID res) (a_db a) = Inr ids \<and> anc = map (\<lambda>i. \<lparr>res_Type = ResourceCA, res_ID = i\<rparr>) ids \<and>
      '''' \<notin> set ids" if "res_Type res = ResourceCA"
    using assms that GetCAAncestors_walk parent_chain_nonempty
    by (fastforce simp: caAncestry_def full_walk_def split: sum.splits)
  then show "list_all Resource_Valid anc" "\<forall>r\<in>set anc. res_Type r = res_Type res"
    using assms by (auto simp: caAncestry_def list_all_iff split: if_splits)
qed

lemma grantSetAt_Allows:
  assumes "grantSetAt a res anc = Inr gs" "list_all Resource_Valid (res # anc)"
  shows "Allows (Some gs) res anc i act \<longleftrightarrow> list_ex (\<lambda>g. grant_says_yes g res anc i act) (rules a)"
proof -
  obtain stored where stored: "ListResourceGrantsAt (res # anc) (a_db a) = Inr stored"
    and gs: "gs = NewGrantSet (filter (\<lambda>g. Resource_String (g_Resource g) \<in> set (map Resource_String (res # anc)))
      (configuredGrants a) @ map ResourceGrant_Grant stored)"
    using assms(1) by (auto simp: grantSetAt_def Let_def split: sum.splits)
  have yes: "g_Resource g \<in> set (res # anc) \<and> Resource_Valid (g_Resource g)" if "grant_says_yes g res anc i act" for g
    using that valid_resource [of "Normalized g"] by (auto simp: grant_says_yes_def)
  have "list_ex (\<lambda>g. grant_says_yes g res anc i act) (map ResourceGrant_Grant stored) \<longleftrightarrow>
      list_ex (\<lambda>g. grant_says_yes g res anc i act) (map ResourceGrant_Grant (db_resource_grants (a_db a)))"
    using yes by (fastforce simp: list_ex_iff ListResourceGrantsAt_set [OF stored])
  moreover have "list_ex (\<lambda>g. grant_says_yes g res anc i act)
        (filter (\<lambda>g. Resource_String (g_Resource g) \<in> set (map Resource_String (res # anc))) (configuredGrants a)) \<longleftrightarrow>
      list_ex (\<lambda>g. grant_says_yes g res anc i act) (configuredGrants a)"
    using yes by (fastforce simp: list_ex_iff)
  ultimately show ?thesis
    unfolding gs Allows_spec [OF assms(2)] rules_def by simp
qed

lemma byTypeLoop_single:
  "\<forall>r\<in>set rs. res_Type r = t \<Longrightarrow> map fst m = [t] \<Longrightarrow> map fst (byTypeLoop rs seen m) = [t]"
proof (induction rs seen m rule: byTypeLoop.induct)
  case (2 r rs seen m)
  have "map fst (append_at (res_Type r) (res_ID r) m) = [t]"
    using 2(3,4) by (cases m) auto
  with 2 show ?case
    by simp
qed simp

text \<open>On the authorization path one query suffices, so its outcome alone decides.\<close>

lemma ListResourceGrantsAt_single:
  assumes "Resource_Valid res" "\<forall>r\<in>set anc. res_Type r = res_Type res"
  shows "(\<exists>stored. ListResourceGrantsAt (res # anc) db = Inr stored) \<longleftrightarrow> db_fails db (QGrantsAt (res_Type res)) = None"
proof -
  have "map fst (byTypeLoop (res # anc) [] []) = [res_Type res]"
    using assms by (simp add: byTypeLoop_single)
  then obtain ids where "byTypeLoop (res # anc) [] [] = [(res_Type res, ids)]"
    by (auto simp: map_eq_Cons_conv)
  then show ?thesis
    by (auto simp: ListResourceGrantsAt_def run_def split: option.splits)
qed

lemma grantAllows_spec:
  "grantAllows a user res act \<longleftrightarrow>
     user \<noteq> None \<and> Resource_Valid res \<and> db_fails (a_db a) (QGrantsAt (res_Type res)) = None \<and>
     (\<exists>anc. caAncestry a res = Inr anc \<and>
        list_ex (\<lambda>g. grant_says_yes g res anc (identityFor a user) act) (rules a))"
proof (cases "user = None \<or> \<not> Resource_Valid res")
  case False
  show ?thesis
  proof (cases "caAncestry a res")
    case (Inr anc)
    note valid = caAncestry_valid [OF Inr]
    have load: "(\<exists>gs. grantSetAt a res anc = Inr gs) \<longleftrightarrow> db_fails (a_db a) (QGrantsAt (res_Type res)) = None"
      using ListResourceGrantsAt_single [of res anc "a_db a"] False valid(2)
      by (auto simp: grantSetAt_def Let_def split: sum.splits)
    show ?thesis
    proof (cases "grantSetAt a res anc")
      case Inl
      with load Inr False show ?thesis
        by (simp add: grantAllows_def)
    next
      case gs: (Inr gs)
      have "list_all Resource_Valid (res # anc)"
        using False valid(1) by simp
      from grantSetAt_Allows [OF gs this] load gs Inr False show ?thesis
        by (auto simp: grantAllows_def)
    qed
  qed (use False in \<open>simp add: grantAllows_def\<close>)
qed (auto simp: grantAllows_def)


section \<open>Tenant isolation\<close>

lemma decideInTenant_Some:
  "decideInTenant (Some u) t act \<longleftrightarrow>
     ui_IsRoot u \<or> Can (ui_Roles u) act \<or> t \<noteq> '''' \<and> Can (lookup (ui_TenantRoles u) t) act"
  by (simp add: decideInTenant_def userRoles_def tenantRolesFor_def)

text \<open>
  C6. Cross-tenant isolation: a principal that is not root, holds no platform role and
  no role in the tenant of an authority, and to whom no rule is addressed, is denied
  every action on that authority, whatever roles it holds in other tenants. The denial
  is recorded once and the request is attributed to the tenant of the authority.
\<close>

theorem cross_tenant_denied:
  assumes "GetCATenant ca (a_db a) = Inr t" "t \<noteq> ''''"
    and "\<not> ui_IsRoot u" "ui_Roles u = []" "lookup (ui_TenantRoles u) t = []"
    and "list_all (\<lambda>g. \<not> Matches (identityFor a (Some u)) g) (rules a)"
  shows "canOnCA (Some u) ca act a cx = (Inr (False, False), RecordAuthz act False a, SetTenant cx t)"
proof -
  have "\<not> grantAllows a (Some u) \<lparr>res_Type = ResourceCA, res_ID = ca\<rparr> act"
    using assms(6) by (auto simp: grantAllows_spec list_ex_iff list_all_iff grant_says_yes_def)
  with assms show ?thesis
    by (simp add: canOnCA_def canOnResource_def decideInTenant_Some Let_def)
qed

text \<open>
  C24. The audit page is confined: a principal that is neither root nor holder of a
  platform role only ever receives entries of one tenant, and it holds a role in it.
\<close>

theorem event_page_confined:
  assumes "ListEventLog walk q a cx = (EventPage entries matched lim off, a', cx')"
    and "cx_UserInfo cx = Some u" "\<not> ui_IsRoot u" "ui_Roles u = []"
  shows "\<exists>t. lookup (ui_TenantRoles u) t \<noteq> [] \<and> list_all (\<lambda>e. ev_Tenant e = t) entries \<and> length entries \<le> 500"
proof -
  have readable: "list_ex (\<lambda>tid. Can (tenantRolesFor (Some u) tid) ActionReadAudit)
      (filter (\<lambda>tid. ui_TenantRoles u tid \<noteq> None) walk)"
    using assms
    by (auto simp: ListEventLog_def canRead_def canReadAnyTenant_def decide_def userRoles_def Let_def split: if_splits)
  have "tenantScope walk u f \<noteq> Inl (EventPage e m l d)" for f e m l d
    by (auto simp: tenantScope_def split: list.splits if_splits)
  then obtain t where scope: "tenantScope walk u (eq_tenant q) = Inr t"
    and list: "ListEvents (eq_action q) (eq_actor q) t (page_limit (eq_limit q)) (page_offset (eq_offset q)) (a_db a) =
      Inr (entries, matched)"
    using assms(1,2)
    by (auto simp: ListEventLog_def canRead_def Let_def split: if_splits sum.splits)
  have member: "lookup (ui_TenantRoles u) t \<noteq> [] \<and> t \<noteq> ''''"
  proof (cases "TenantsWithRoles walk (Some u)")
    case (Cons x rest)
    show ?thesis
    proof (cases rest)
      case Nil
      with Cons have "filter (\<lambda>tid. ui_TenantRoles u tid \<noteq> None) walk = [x]"
        by (simp add: TenantsWithRoles_def)
      with readable have "Can (tenantRolesFor (Some u) x) ActionReadAudit"
        by simp
      moreover have "x = t"
        using scope Cons Nil assms(3,4) by (simp add: tenantScope_def)
      ultimately show ?thesis
        by (auto simp: tenantRolesFor_def split: if_splits)
    qed (use scope Cons assms(3,4) in \<open>auto simp: tenantScope_def split: if_splits\<close>)
  qed (use scope assms(3,4) in \<open>simp add: tenantScope_def\<close>)
  have "page_limit v \<le> 500" for v
    by (auto simp: page_limit_def split: option.splits)
  then have "length entries \<le> 500"
    using list by (auto simp: ListEvents_def run_eq_Inr Let_def min.coboundedI2 split: sum.splits)
  moreover have "list_all (\<lambda>e. ev_Tenant e = t) entries"
    using list member
    by (auto simp: ListEvents_def run_eq_Inr Let_def event_matches_def list_all_iff split: sum.splits
        dest!: in_set_takeD in_set_dropD)
  ultimately show ?thesis
    using member by blast
qed

section \<open>Explaining a decision\<close>

lemma AllActions_distinct: "distinct AllActions"
  by (simp add: AllActions_def action_defs)

text \<open>
  C21. The explanation never drifts from the decision: the actions it lists for a
  well-formed resource are exactly those that the per-resource gate would allow, each
  once and in order.
\<close>

theorem effectiveAccess_exact:
  assumes "Resource_Valid res" "effectiveAccess walk a user res t = Inr eff"
  shows "ea_Actions eff = sort (filter (\<lambda>act. fst (canOnResource user res t act a)) AllActions) \<and>
    set (ea_Actions eff) = {act. act \<in> set AllActions \<and> fst (canOnResource user res t act a)} \<and> distinct (ea_Actions eff)"
proof -
  have "ea_Actions eff = sort (filter (\<lambda>act. fst (canOnResource user res t act a)) AllActions)"
  proof (cases user)
    case None
    have "fst (canOnResource None res t act a) = False" for act
      by (simp add: canOnResource_def decideInTenant_def grantAllows_def Let_def)
    with None assms(2) show ?thesis
      by (auto simp: effectiveAccess_def Let_def)
  next
    case (Some u)
    with assms(2) obtain anc gs where anc: "caAncestry a res = Inr anc" and gs: "grantSetAt a res anc = Inr gs"
      and act: "ea_Actions eff = sort (filter (\<lambda>act. decideInTenant user t act \<or>
        Allows (Some gs) res anc (identityFor a user) act) AllActions)"
      by (auto simp: effectiveAccess_def Let_def split: sum.splits)
    have "grantAllows a user res act = Allows (Some gs) res anc (identityFor a user) act" for act
      using Some assms(1) anc gs by (simp add: grantAllows_def)
    then show ?thesis
      by (simp add: act canOnResource_def Let_def)
  qed
  then show ?thesis
    by (auto simp: AllActions_distinct)
qed
section \<open>Administering grants\<close>

lemma recordEvent_simps [simp]:
  "a_configGrants (recordEvent h rq cx x y z r d a) = a_configGrants a"
  "db_resource_grants (a_db (recordEvent h rq cx x y z r d a)) = db_resource_grants (a_db a)"
  "db_group_members (a_db (recordEvent h rq cx x y z r d a)) = db_group_members (a_db a)"
  "db_cas (a_db (recordEvent h rq cx x y z r d a)) = db_cas (a_db a)"
  "db_fails (a_db (recordEvent h rq cx x y z r d a)) = db_fails (a_db a)"
  by (simp_all add: recordEvent_def recordEventCtx_def Let_def)

lemma PutResourceGrant_cases:
  "PutResourceGrant now g db = (case Grant_Validate (ResourceGrant_Grant g) of
     Some e \<Rightarrow> (Inl (InvalidGrant e), db)
   | None \<Rightarrow> (case db_fails db XPutGrant of
       Some err \<Rightarrow> (Inl (PutFailed err), db)
     | None \<Rightarrow> (Inr (stored_form now g), db\<lparr>db_resource_grants := upsert (stored_form now g) (db_resource_grants db)\<rparr>)))"
  by (simp add: PutResourceGrant_def stored_form_def Let_def split: option.splits)

text \<open>What an accepted caller of the administration endpoints may do.\<close>

lemma authorizeGrantAdmin_ok:
  assumes "authorizeGrantAdmin spec a cx = (Inr res, a', cx')"
  shows "\<exists>t. resolveGrantResource a cx spec = Inr (res, t, False) \<and> cx' = SetTenant cx t \<and>
    (decideInTenant (cx_UserInfo cx) t ActionManageRBAC \<or> grantAllows a (cx_UserInfo cx) res ActionDelegate) \<and>
    a_db a' = a_db a \<and> a_configGrants a' = a_configGrants a"
  using assms
  by (auto simp: authorizeGrantAdmin_def canInTenant_def Let_def split: sum.splits if_splits)

lemma authorizeGrantAdmin_state:
  assumes "authorizeGrantAdmin spec a cx = (r, a', cx')"
  shows "a_db a' = a_db a" "a_configGrants a' = a_configGrants a" "cx_UserInfo cx' = cx_UserInfo cx"
    "cx_RequestID cx' = cx_RequestID cx"
  using assms
  by (auto simp: authorizeGrantAdmin_def canInTenant_def SetTenant_def Let_def
      split: sum.splits if_splits option.splits)

definition new_entry :: "Req \<Rightarrow> ResourceGrantRequest \<Rightarrow> Resource \<Rightarrow> ResourceGrant" where
  "new_entry rq req res = \<lparr>rg_ID = rq_grantID rq, rg_ResourceType = res_Type res, rg_ResourceID = res_ID res,
     rg_EntityType = rq_EntityType req, rg_EntityID = rq_EntityID req, rg_Role = rq_Role req,
     rg_Scope = rq_Scope req, rg_CreatedAt = zero_time, rg_CreatedBy = ''''\<rparr>"

lemma new_entry_simps [simp]:
  "row_resource (new_entry rq req res) = res" "rg_Role (new_entry rq req res) = rq_Role req"
  "rg_Scope (new_entry rq req res) = rq_Scope req"
  by (simp_all add: new_entry_def row_resource_def)

lemma CreateResourceGrant_ok:
  assumes "CreateResourceGrant h txt walk rq (Some req) a cx = (Granted g, a', cx')"
  shows "\<exists>res t. resolveGrantResource a cx (rq_Resource req) = Inr (res, t, False) \<and>
    g = stored_form (rq_now rq) (new_entry rq req res) \<and> Grant_Validate (ResourceGrant_Grant (new_entry rq req res)) = None \<and>
    (decideInTenant (cx_UserInfo cx) t ActionManageRBAC \<or> grantAllows a (cx_UserInfo cx) res ActionDelegate) \<and>
    (rq_Scope req = ScopeSubtree \<longrightarrow> decideInTenant (cx_UserInfo cx) (GetTenant (SetTenant cx t)) ActionManageRBAC \<or>
       grantAllows a (cx_UserInfo cx) res ActionDelegate \<and> holdsSubtreeDelegation walk a (cx_UserInfo cx) res) \<and>
    db_resource_grants (a_db a') = upsert g (db_resource_grants (a_db a)) \<and>
    db_cas (a_db a') = db_cas (a_db a) \<and> db_group_members (a_db a') = db_group_members (a_db a) \<and>
    db_fails (a_db a') = db_fails (a_db a) \<and> a_configGrants a' = a_configGrants a \<and> cx' = SetTenant cx t"
proof -
  obtain r a1 cx1 where auth: "authorizeGrantAdmin (rq_Resource req) a cx = (r, a1, cx1)"
    by (metis prod.exhaust)
  note state = authorizeGrantAdmin_state [OF auth]
  have db: "a_db (RecordAuthz x y a1) = a_db a" "a_configGrants (RecordAuthz x y a1) = a_configGrants a" for x y
    using state by simp_all
  note same = decision_cong [OF db]
  show ?thesis
  proof (cases r)
    case (Inl x)
    with assms auth have "x = Granted g"
      by (simp add: CreateResourceGrant_def)
    with Inl auth show ?thesis
      by (auto simp: authorizeGrantAdmin_def canInTenant_def Let_def split: sum.splits if_splits)
  next
    case (Inr res)
    from authorizeGrantAdmin_ok [OF auth [unfolded Inr]] obtain t where
      t: "resolveGrantResource a cx (rq_Resource req) = Inr (res, t, False)" "cx1 = SetTenant cx t"
        "decideInTenant (cx_UserInfo cx) t ActionManageRBAC \<or> grantAllows a (cx_UserInfo cx) res ActionDelegate"
      by blast
    have "Grant_Validate (ResourceGrant_Grant (new_entry rq req res)) = None"
      using assms auth Inr by (auto simp: CreateResourceGrant_def new_entry_def Let_def split: option.splits)
    with assms auth Inr t(2) show ?thesis
      using t same state
      by (auto simp: CreateResourceGrant_def new_entry_def [symmetric] canInTenant_def PutResourceGrant_cases Let_def
          split: if_splits option.splits)
  qed
qed

lemma delegating_role_dominates:
  assumes "ResourceRoleGrants r ActionDelegate" "ResourceRoleAppliesTo r t" "ResourceRoleAppliesTo q t" "ResourceRoleGrants q act"
  shows "ResourceRoleGrants r act"
proof -
  have r: "(r, t) \<in> {(ResourceRoleCAAdmin, ResourceCA), (ResourceRoleKeyAdmin, ResourceSigningKey)}"
    using assms(1,2)
    by (auto simp: ResourceRoleGrants_def resourceRoleActions_def ResourceRoleAppliesTo_def resourceRoleTypes_def
        resource_role_defs action_defs split: if_splits)
  have q: "q \<in> {ResourceRoleCAAdmin, ResourceRoleCAManager, ResourceRoleCAIssuer, ResourceRoleCAAuditor}" if "t = ResourceCA"
    using assms(3) that
    by (auto simp: ResourceRoleAppliesTo_def resourceRoleTypes_def grant_name_defs split: if_splits)
  have q': "q \<in> {ResourceRoleKeyAdmin, ResourceRoleKeySigner, ResourceRoleKeyAuditor}" if "t = ResourceSigningKey"
    using assms(3) that
    by (auto simp: ResourceRoleAppliesTo_def resourceRoleTypes_def grant_name_defs split: if_splits)
  from r show ?thesis
  proof
    assume "(r, t) = (ResourceRoleCAAdmin, ResourceCA)"
    with q assms(4) show ?thesis
      by (auto simp: ResourceRoleGrants_def resourceRoleActions_def resource_role_defs)
  next
    assume "(r, t) \<in> {(ResourceRoleKeyAdmin, ResourceSigningKey)}"
    with q' assms(4) show ?thesis
      by (auto simp: ResourceRoleGrants_def resourceRoleActions_def resource_role_defs)
  qed
qed

lemma valid_applies:
  "Grant_Validate g = None \<Longrightarrow> ResourceRoleAppliesTo (g_Role g) (res_Type (g_Resource g))"
  by (simp add: Grant_Validate_def split: if_splits)

lemma grantAllows_delegate_dominates:
  assumes "grantAllows a user res ActionDelegate" "ResourceRoleAppliesTo q (res_Type res)" "ResourceRoleGrants q act"
  shows "grantAllows a user res act"
proof -
  obtain anc g where anc: "caAncestry a res = Inr anc" and g: "g \<in> set (rules a)"
    "grant_says_yes g res anc (identityFor a user) ActionDelegate"
    and ok: "user \<noteq> None" "Resource_Valid res" "db_fails (a_db a) (QGrantsAt (res_Type res)) = None"
    using assms(1) by (auto simp: grantAllows_spec list_ex_iff)
  have "res_Type (g_Resource g) = res_Type res"
    using g(2) caAncestry_valid(2) [OF anc] by (auto simp: grant_says_yes_def)
  moreover have "ResourceRoleAppliesTo (g_Role g) (res_Type (g_Resource g))"
    using g(2) valid_applies [of "Normalized g"] by (auto simp: grant_says_yes_def)
  ultimately have "ResourceRoleGrants (g_Role g) act"
    using assms(2,3) g(2) delegating_role_dominates by (auto simp: grant_says_yes_def)
  with g have "grant_says_yes g res anc (identityFor a user) act"
    by (simp add: grant_says_yes_def)
  with anc g(1) ok show ?thesis
    by (auto simp: grantAllows_spec list_ex_iff)
qed

lemma All_grants_rule:
  assumes "grantSetAt a res anc = Inr gs" "g \<in> set (All_grants walk (Some gs))"
  shows "\<exists>h\<in>set (rules a). g = Normalized h \<and> Grant_Validate g = None \<and>
    Resource_String (g_Resource h) \<in> set (map Resource_String (res # anc))"
proof -
  obtain stored where stored: "ListResourceGrantsAt (res # anc) (a_db a) = Inr stored"
    and gs: "gs = NewGrantSet (filter (\<lambda>g. Resource_String (g_Resource g) \<in> set (map Resource_String (res # anc)))
      (configuredGrants a) @ map ResourceGrant_Grant stored)"
    using assms(1) by (auto simp: grantSetAt_def Let_def split: sum.splits)
  from assms(2) obtain k where "g \<in> set (lookup gs k)"
    by (auto simp: All_grants_def SortGrants_def)
  then obtain h where "h \<in> set (filter (\<lambda>g. Resource_String (g_Resource g) \<in> set (map Resource_String (res # anc)))
      (configuredGrants a) @ map ResourceGrant_Grant stored)" "g = Normalized h" "Grant_Validate g = None"
    unfolding gs NewGrantSet_lookup by auto
  moreover from this(1) have "h \<in> set (rules a) \<and> Resource_String (g_Resource h) \<in> set (map Resource_String (res # anc))"
    using ListResourceGrantsAt_set [OF stored] by (auto simp: rules_def)
  ultimately show ?thesis
    by blast
qed

lemma holdsSubtreeDelegation_rule:
  assumes "holdsSubtreeDelegation walk a user res" "Resource_Valid res"
  shows "\<exists>anc. caAncestry a res = Inr anc \<and>
    list_ex (\<lambda>h. g_Scope h = ScopeSubtree \<and> g_Resource h \<in> set (res # anc) \<and>
      grant_says_yes h (g_Resource h) [] (identityFor a user) ActionDelegate) (rules a)"
proof -
  obtain anc gs g where anc: "caAncestry a res = Inr anc" and gs: "grantSetAt a res anc = Inr gs"
    and g: "g \<in> set (All_grants walk (Some gs))" "g_Scope g = ScopeSubtree" "Matches (identityFor a user) g"
      "ResourceRoleGrants (g_Role g) ActionDelegate"
    using assms(1) by (auto simp: holdsSubtreeDelegation_def Let_def list_ex_iff split: sum.splits)
  obtain h where h: "h \<in> set (rules a)" "g = Normalized h" "Grant_Validate g = None"
    "Resource_String (g_Resource h) \<in> set (map Resource_String (res # anc))"
    using All_grants_rule [OF gs g(1)] by blast
  obtain q where q: "q \<in> set (res # anc)" "Resource_String (g_Resource h) = Resource_String q"
    using h(4) by auto
  moreover have "Resource_Valid q"
    using q(1) caAncestry_valid(1) [OF anc] assms(2) by (auto simp: list_all_iff)
  moreover have "Resource_Valid (g_Resource h)"
    using valid_resource [OF h(3)] h(2) by simp
  ultimately have "g_Resource h \<in> set (res # anc)"
    using Resource_String_inj by metis
  with h g anc show ?thesis
    by (auto simp: list_ex_iff grant_says_yes_def intro!: bexI [of _ h])
qed

text \<open>
  C10. Delegation is bounded by the authority of the delegator: when a caller without
  the tenant-wide capability to manage access stores a grant, every action the granted
  role carries is one the caller itself holds at that resource by a rule; and a grant
  that reaches down the hierarchy is only stored for a caller whose own delegating rule
  is of subtree scope and lies on the resource or above it.
\<close>

theorem delegation_bounded:
  assumes "CreateResourceGrant h txt walk rq (Some req) a cx = (Granted g, a', cx')"
    and "resolveGrantResource a cx (rq_Resource req) = Inr (res, t, nf)"
    and "\<not> decideInTenant (cx_UserInfo cx) t ActionManageRBAC"
    and "ResourceRoleGrants (rg_Role g) act"
  shows "row_resource g = res \<and> grantAllows a (cx_UserInfo cx) res act \<and>
    (rg_Scope g = ScopeSubtree \<longrightarrow>
      (\<exists>anc. caAncestry a res = Inr anc \<and>
        list_ex (\<lambda>r. g_Scope r = ScopeSubtree \<and> g_Resource r \<in> set (res # anc) \<and>
          grant_says_yes r (g_Resource r) [] (identityFor a (cx_UserInfo cx)) ActionDelegate) (rules a)))"
proof -
  from CreateResourceGrant_ok [OF assms(1)] assms(2,3) have
    g: "g = stored_form (rq_now rq) (new_entry rq req res)"
    and valid: "Grant_Validate (ResourceGrant_Grant (new_entry rq req res)) = None"
    and del: "grantAllows a (cx_UserInfo cx) res ActionDelegate"
    and sub: "rq_Scope req = ScopeSubtree \<longrightarrow> decideInTenant (cx_UserInfo cx) (GetTenant (SetTenant cx t)) ActionManageRBAC \<or>
       holdsSubtreeDelegation walk a (cx_UserInfo cx) res"
    by auto
  have "\<not> decideInTenant (cx_UserInfo cx) (GetTenant (SetTenant cx t)) ActionManageRBAC"
    using assms(3)
    by (cases "cx_UserInfo cx") (auto simp: decideInTenant_def tenantRolesFor_def GetTenant_def SetTenant_def
        split: option.splits if_splits)
  with sub have sub: "rq_Scope req = ScopeSubtree \<longrightarrow> holdsSubtreeDelegation walk a (cx_UserInfo cx) res"
    by blast
  have role: "rg_Role g = rq_Role req" and row: "row_resource g = res"
    by (simp_all add: g stored_form_def row_resource_def new_entry_def Let_def)
  have scope: "rg_Scope g = ScopeSubtree \<longleftrightarrow> rq_Scope req = ScopeSubtree"
    by (simp add: g ResourceGrant_Grant_def Normalized_def grant_name_defs)
  have "ResourceRoleAppliesTo (rq_Role req) (res_Type res)"
    using valid_applies [OF valid] by simp
  then have "grantAllows a (cx_UserInfo cx) res act"
    using grantAllows_delegate_dominates [OF del] assms(4) role by simp
  moreover have "Resource_Valid res"
    using del by (simp add: grantAllows_spec)
  ultimately show ?thesis
    using row scope sub holdsSubtreeDelegation_rule [of walk a "cx_UserInfo cx" res] by simp
qed
section \<open>Signing keys and tenants\<close>

lemma CreateResourceGrant_stores:
  assumes "authorizeGrantAdmin (rq_Resource req) a cx = (Inr res, a1, cx1)"
    and "Grant_Validate (ResourceGrant_Grant (new_entry rq req res)) = None"
    and "rq_Scope req \<noteq> ScopeSubtree" "db_fails (a_db a) XPutGrant = None"
    and "CreateResourceGrant h txt walk rq (Some req) a cx = (r, a', cx')"
  shows "r = Granted (stored_form (rq_now rq) (new_entry rq req res))"
    "db_resource_grants (a_db a') = upsert (stored_form (rq_now rq) (new_entry rq req res)) (db_resource_grants (a_db a))"
    "db_fails (a_db a') = db_fails (a_db a)"
  using assms authorizeGrantAdmin_state [OF assms(1)]
  by (auto simp: CreateResourceGrant_def new_entry_def [symmetric] canInTenant_def PutResourceGrant_cases Let_def)

lemma signing_key_valid [simp]: "Resource_Valid \<lparr>res_Type = ResourceSigningKey, res_ID = k\<rparr> \<longleftrightarrow> k \<noteq> ''''"
  by (simp add: Resource_Valid_def ValidResourceType_def AllResourceTypes_def)

lemma caAncestry_key [simp]: "caAncestry a \<lparr>res_Type = ResourceSigningKey, res_ID = k\<rparr> = Inr []"
  by (simp add: caAncestry_def grant_name_defs)

lemma find_SomeD: "find P xs = Some x \<Longrightarrow> x \<in> set xs \<and> P x"
  by (auto simp: find_Some_iff)

lemma identity_subject: "id_Subject (identityFor a (Some u)) = ui_Subject u"
  by (simp add: identityFor_def Let_def split: sum.splits)

text \<open>
  C25. A grant on a signing key names the key but not its tenant, and the request for
  such a grant is always judged in the default tenant. So an administrator of the
  default tenant alone, with no role in any other, can grant itself the use of a key by
  name and from then on may sign with the key of that name in every tenant.
\<close>

theorem key_grant_crosses_tenants:
  assumes "cx_UserInfo cx = Some u" "cx_tenantHolder cx = Some ''''" "ui_Subject u \<noteq> ''''"
    and "decideInTenant (Some u) DefaultTenantID ActionManageRBAC"
    and "ParseResource spec = Inr \<lparr>res_Type = ResourceSigningKey, res_ID = k\<rparr>"
    and "db_fails (a_db a) XPutGrant = None" "db_fails (a_db a) (QGrantsAt ResourceSigningKey) = None"
    and "CreateResourceGrant h txt walk rq (Some \<lparr>rq_Resource = spec, rq_EntityType = EntityUser,
           rq_EntityID = ui_Subject u, rq_Role = ResourceRoleKeySigner, rq_Scope = ''''\<rparr>) a cx = (r, a', cx')"
  shows "(\<exists>g. r = Granted g \<and> rg_CreatedBy g = '''') \<and> fst (canOnSigningKey cx t k ActionSign a')"
proof -
  let ?key = "\<lparr>res_Type = ResourceSigningKey, res_ID = k\<rparr>"
  define req where "req = \<lparr>rq_Resource = spec, rq_EntityType = EntityUser, rq_EntityID = ui_Subject u,
    rq_Role = ResourceRoleKeySigner, rq_Scope = ''''\<rparr>"
  have spec: "rq_Resource req = spec"
    by (simp add: req_def)
  have k: "k \<noteq> ''''"
    using ParseResource_valid [OF assms(5)] by simp
  have res: "resolveGrantResource a cx spec = Inr (?key, DefaultTenantID, False)"
    using assms(2,5) by (simp add: resolveGrantResource_def GetTenant_def grant_name_defs)
  have auth: "authorizeGrantAdmin spec a cx =
      (Inr ?key, RecordAuthz ActionManageRBAC True a, SetTenant cx DefaultTenantID)"
    using assms(1,4) by (simp add: authorizeGrantAdmin_def res canInTenant_def)
  have valid: "Grant_Validate (ResourceGrant_Grant (new_entry rq req ?key)) = None"
    using assms(3) k
    by (simp add: Grant_Validate_def ResourceGrant_Grant_def new_entry_def req_def Normalized_def ValidEntityType_def
        ValidResourceRole_def ResourceRoleAppliesTo_def resourceRoleActions_def resourceRoleTypes_def
        ValidGrantScope_def resource_role_defs grant_name_defs Resource_Valid_def ValidResourceType_def AllResourceTypes_def)
  have "rq_Scope req \<noteq> ScopeSubtree"
    by (simp add: req_def ScopeSubtree_def)
  note put = CreateResourceGrant_stores [OF auth [folded spec] valid this assms(6) assms(8) [folded req_def]]
  have r: "r = Granted (stored_form (rq_now rq) (new_entry rq req ?key))"
    and rows: "db_resource_grants (a_db a') = upsert (stored_form (rq_now rq) (new_entry rq req ?key)) (db_resource_grants (a_db a))"
    and fails: "db_fails (a_db a') = db_fails (a_db a)"
    using put by simp_all
  have "grant_key (new_entry rq req ?key) = (?key, EntityUser, ui_Subject u, ResourceRoleKeySigner)"
    "g_Scope (ResourceGrant_Grant (new_entry rq req ?key)) = ScopeSelf"
    "rg_CreatedAt (new_entry rq req ?key) = zero_time" "rg_CreatedBy (new_entry rq req ?key) = ''''"
    by (simp_all add: grant_key_def row_resource_def new_entry_def req_def ResourceGrant_Grant_def Normalized_def)
  then have "grant_at (db_resource_grants (a_db a')) (?key, EntityUser, ui_Subject u, ResourceRoleKeySigner) =
      Some (ScopeSelf, rq_now rq, '''')"
    unfolding rows gs.look_put by simp
  then obtain g where g: "g \<in> set (db_resource_grants (a_db a'))"
    and key: "grant_key g = (?key, EntityUser, ui_Subject u, ResourceRoleKeySigner)" and scope: "rg_Scope g = ScopeSelf"
    by (auto simp: grant_at_def dest!: find_SomeD)
  have grant: "ResourceGrant_Grant g = \<lparr>g_Resource = ?key, g_EntityType = EntityUser, g_EntityID = ui_Subject u,
      g_Role = ResourceRoleKeySigner, g_Scope = ScopeSelf\<rparr>"
    using key scope by (simp add: ResourceGrant_Grant_def grant_key_def row_resource_def Normalized_def grant_name_defs)
  have "grant_says_yes (ResourceGrant_Grant g) ?key [] (identityFor a' (Some u)) ActionSign"
    using assms(3) k unfolding grant
    by (simp add: grant_says_yes_def Normalized_def Matches_def identity_subject Grant_Validate_def ValidEntityType_def
        ValidResourceRole_def ResourceRoleAppliesTo_def ResourceRoleGrants_def resourceRoleActions_def resourceRoleTypes_def
        ValidGrantScope_def resource_role_defs grant_name_defs action_defs Resource_Valid_def ValidResourceType_def AllResourceTypes_def)
  then have "grantAllows a' (Some u) ?key ActionSign"
    using g k assms(7) fails unfolding grantAllows_spec by (auto simp: rules_def list_ex_iff)
  then show ?thesis
    using assms(1) k r by (simp add: canOnSigningKey_def canOnResource_def Let_def new_entry_def)
qed
section \<open>Examples\<close>

text \<open>
  A small deployment: authority \<open>leaf\<close> below \<open>root\<close> in tenant \<open>acme\<close>, one stored
  subtree grant on \<open>root\<close> for the group \<open>ops\<close>, one operator in that group, one auditor of
  another tenant, and an administrator of the default tenant.
\<close>

definition demo_db :: DB where
  "demo_db = \<lparr>db_cas = [\<lparr>ca_id = ''root'', ca_tenant_id = Some ''acme'', ca_parent_id = None\<rparr>,
       \<lparr>ca_id = ''leaf'', ca_tenant_id = Some ''acme'', ca_parent_id = Some ''root''\<rparr>],
     db_resource_grants = [\<lparr>rg_ID = ''1'', rg_ResourceType = ResourceCA, rg_ResourceID = ''root'', rg_EntityType = EntityGroup,
       rg_EntityID = ''ops'', rg_Role = ResourceRoleCAAdmin, rg_Scope = ScopeSubtree, rg_CreatedAt = 5, rg_CreatedBy = ''root''\<rparr>],
     db_group_members = [(''olga'', ''ops'')], db_permissions = [], db_event_log = [], db_fails = (\<lambda>_. None)\<rparr>"

definition demo_api :: API where
  "demo_api = \<lparr>a_configGrants = None, a_principalResolver = None, a_db = demo_db, a_metrics = []\<rparr>"

definition demo_user :: "string \<Rightarrow> (string \<rightharpoonup> string list) \<Rightarrow> UserInfo" where
  "demo_user s roles = \<lparr>ui_Subject = s, ui_Email = '''', ui_EmailVerified = False, ui_Name = s, ui_IsRoot = False,
     ui_Roles = [], ui_TenantRoles = roles, ui_Groups = [], ui_AuthProvider = ''''\<rparr>"

definition demo_ctx :: "UserInfo \<Rightarrow> Ctx" where
  "demo_ctx u = \<lparr>cx_UserInfo = Some u, cx_tenantHolder = Some '''', cx_RequestID = ''r1''\<rparr>"

definition demo_req :: Req where
  "demo_req = \<lparr>rq_now = 7, rq_ip = ''::1'', rq_grantID = ''2'', rq_eventID = ''3''\<rparr>"

definition olga :: UserInfo where "olga = demo_user ''olga'' Map.empty"
definition mallory :: UserInfo where "mallory = demo_user ''mallory'' [''other'' \<mapsto> [RoleAdmin]]"
definition dora :: UserInfo where "dora = demo_user ''dora'' [DefaultTenantID \<mapsto> [RoleAdmin]]"

theorem cross_tenant_denied_witness:
  "canOnCA (Some mallory) ''leaf'' ActionManageCA demo_api (demo_ctx mallory) =
     (Inr (False, False), RecordAuthz ActionManageCA False demo_api, SetTenant (demo_ctx mallory) ''acme'')"
proof (rule cross_tenant_denied)
  show "GetCATenant ''leaf'' (a_db demo_api) = Inr ''acme''" by code_simp
  show "list_all (\<lambda>g. \<not> Matches (identityFor demo_api (Some mallory)) g) (rules demo_api)" by code_simp
qed (simp_all add: mallory_def demo_user_def lookup_def)

definition demo_entry :: "string \<Rightarrow> Event" where
  "demo_entry t = \<lparr>ev_Seq = 1, ev_ID = t, ev_Timestamp = 0, ev_Actor = ''x'', ev_ActorName = '''', ev_ActorRoles = '''',
     ev_Action = ''login'', ev_Tenant = t, ev_Target = '''', ev_TargetName = '''', ev_Result = ResultSuccess, ev_Detail = '''',
     ev_IP = '''', ev_RequestID = '''', ev_PrevHash = '''', ev_Hash = ''''\<rparr>"

definition demo_api_log :: API where
  "demo_api_log = demo_api\<lparr>a_db := demo_db\<lparr>db_event_log := [demo_entry ''acme'', demo_entry ''other'']\<rparr>\<rparr>"

definition demo_query :: EventQuery where
  "demo_query = \<lparr>eq_action = '''', eq_actor = '''', eq_tenant = ''acme'', eq_limit = '''', eq_offset = ''''\<rparr>"

theorem event_page_confined_witness:
  "ListEventLog [''other''] demo_query demo_api_log (demo_ctx mallory) =
     (EventPage [demo_entry ''other''] 1 50 0, RecordAuthz ActionReadAudit True demo_api_log, demo_ctx mallory) \<and>
   (\<exists>t. lookup (ui_TenantRoles mallory) t \<noteq> [] \<and> list_all (\<lambda>e. ev_Tenant e = t) [demo_entry ''other''])"
proof -
  have r: "ListEventLog [''other''] demo_query demo_api_log (demo_ctx mallory) =
     (EventPage [demo_entry ''other''] 1 50 0, RecordAuthz ActionReadAudit True demo_api_log, demo_ctx mallory)"
    by (simp add: ListEventLog_def canRead_def canReadAnyTenant_def decide_def userRoles_def tenantRolesFor_def demo_ctx_def
        mallory_def demo_user_def lookup_def RoleGrants_def Let_def tenantScope_def TenantsWithRoles_def ListEvents_def
        demo_api_log_def demo_api_def demo_db_def RecordAuthz_def page_limit_def page_offset_def demo_query_def
        event_matches_def demo_entry_def)
  from event_page_confined [OF r, of mallory] r show ?thesis
    by (auto simp: demo_ctx_def mallory_def demo_user_def)
qed

theorem effectiveAccess_exact_witness:
  "\<exists>eff. effectiveAccess [''ca/root''] demo_api (Some olga) \<lparr>res_Type = ResourceCA, res_ID = ''leaf''\<rparr> ''acme'' = Inr eff \<and>
     ActionDelegate \<in> set (ea_Actions eff)"
proof -
  let ?leaf = "\<lparr>res_Type = ResourceCA, res_ID = ''leaf''\<rparr>"
  have "\<not> isl (effectiveAccess [''ca/root''] demo_api (Some olga) ?leaf ''acme'')"
    by code_simp
  then obtain eff where eff: "effectiveAccess [''ca/root''] demo_api (Some olga) ?leaf ''acme'' = Inr eff"
    by (cases "effectiveAccess [''ca/root''] demo_api (Some olga) ?leaf ''acme''") auto
  have "fst (canOnResource (Some olga) ?leaf ''acme'' ActionDelegate demo_api)" "ActionDelegate \<in> set AllActions"
    by code_simp+
  with effectiveAccess_exact [OF _ eff] eff show ?thesis
    by simp
qed

definition demo_body :: ResourceGrantRequest where
  "demo_body = \<lparr>rq_Resource = ''ca/leaf'', rq_EntityType = EntityGroup, rq_EntityID = ''dev'',
     rq_Role = ResourceRoleCAIssuer, rq_Scope = ScopeSubtree\<rparr>"

definition demo_granted :: ResourceGrant where
  "demo_granted = \<lparr>rg_ID = ''2'', rg_ResourceType = ResourceCA, rg_ResourceID = ''leaf'', rg_EntityType = EntityGroup,
     rg_EntityID = ''dev'', rg_Role = ResourceRoleCAIssuer, rg_Scope = ScopeSubtree, rg_CreatedAt = 7, rg_CreatedBy = ''''\<rparr>"

lemma demo_create:
  "fst (CreateResourceGrant (\<lambda>_. []) (\<lambda>_. '''') [''ca/root''] demo_req (Some demo_body) demo_api (demo_ctx olga)) =
     Granted demo_granted"
  by code_simp
lemma demo_resolve:
  "resolveGrantResource demo_api (demo_ctx olga) (rq_Resource demo_body) =
     Inr (\<lparr>res_Type = ResourceCA, res_ID = ''leaf''\<rparr>, ''acme'', False)"
  by code_simp

theorem delegation_bounded_witness:
  "grantAllows demo_api (Some olga) \<lparr>res_Type = ResourceCA, res_ID = ''leaf''\<rparr> ActionIssue"
proof -
  let ?run = "CreateResourceGrant (\<lambda>_. []) (\<lambda>_. '''') [''ca/root''] demo_req (Some demo_body) demo_api (demo_ctx olga)"
  have run: "?run = (Granted demo_granted, fst (snd ?run), snd (snd ?run))"
    using demo_create by (metis prod.collapse)
  have "\<not> decideInTenant (cx_UserInfo (demo_ctx olga)) ''acme'' ActionManageRBAC"
    and "ResourceRoleGrants (rg_Role demo_granted) ActionIssue"
    by code_simp+
  from delegation_bounded [OF run demo_resolve this] show ?thesis
    by (simp add: demo_ctx_def)
qed


theorem key_grant_crosses_tenants_witness:
  "\<not> fst (canOnSigningKey (demo_ctx dora) ''acme'' ''release'' ActionSign demo_api) \<and>
   fst (canOnSigningKey (demo_ctx dora) ''acme'' ''release'' ActionSign
     (fst (snd (CreateResourceGrant (\<lambda>_. []) (\<lambda>_. '''') [] demo_req
       (Some \<lparr>rq_Resource = ''signing-key/release'', rq_EntityType = EntityUser, rq_EntityID = ui_Subject dora,
          rq_Role = ResourceRoleKeySigner, rq_Scope = ''''\<rparr>) demo_api (demo_ctx dora)))))"
proof -
  let ?run = "CreateResourceGrant (\<lambda>_. []) (\<lambda>_. '''') [] demo_req
       (Some \<lparr>rq_Resource = ''signing-key/release'', rq_EntityType = EntityUser, rq_EntityID = ui_Subject dora,
          rq_Role = ResourceRoleKeySigner, rq_Scope = ''''\<rparr>) demo_api (demo_ctx dora)"
  have run: "?run = (fst ?run, fst (snd ?run), snd (snd ?run))"
    by simp
  have u: "ParseResource ''signing-key/release'' = Inr \<lparr>res_Type = ResourceSigningKey, res_ID = ''release''\<rparr>"
    "decideInTenant (Some dora) DefaultTenantID ActionManageRBAC" "ui_Subject dora \<noteq> ''''"
    by code_simp+
  have c: "cx_UserInfo (demo_ctx dora) = Some dora" "cx_tenantHolder (demo_ctx dora) = Some ''''"
    "db_fails (a_db demo_api) q = None" for q
    by (simp_all add: demo_ctx_def demo_api_def demo_db_def)
  have "fst (canOnSigningKey (demo_ctx dora) ''acme'' ''release'' ActionSign (fst (snd ?run)))"
    using key_grant_crosses_tenants [OF c(1,2) u(3,2,1) c(3) c(3) run] by blast
  moreover have "\<not> fst (canOnSigningKey (demo_ctx dora) ''acme'' ''release'' ActionSign demo_api)"
    by code_simp
  ultimately show ?thesis by blast
qed

end
