(* ===== verification/Interleaving.thy ===== *)
theory Interleaving
  imports "HOL-Library.Multiset"
begin

text \<open>
  Interleaved execution. A pool runs any number of programs over one shared world; a
  step lets one of them perform its next call and hands it the tokens that call won.
  The locale is the rely-guarantee argument: if a program is safe in a world and stays
  safe when the world moves on, and if every call of a safe program keeps the invariant,
  then the invariant holds in every reachable pool, and tokens that the world gives out
  once are held by at most one program.
\<close>

inductive pool ::
  "('c \<Rightarrow> 'w \<Rightarrow> 'p \<Rightarrow> 'w \<times> 'g list \<times> 'p) \<Rightarrow> 'p set \<Rightarrow> 'w \<Rightarrow> 'w \<Rightarrow> ('g list \<times> 'p) list \<Rightarrow> bool"
  for step starts w0 where
  init: "pool step starts w0 w0 []"
| spawn: "pool step starts w0 w ts \<Longrightarrow> p \<in> starts \<Longrightarrow> pool step starts w0 w (ts @ [([], p)])"
| act: "pool step starts w0 w ts \<Longrightarrow> i < length ts \<Longrightarrow> ts ! i = (held, p) \<Longrightarrow> step c w p = (w', won, p') \<Longrightarrow>
    pool step starts w0 w' (ts[i := (held @ won, p')])"

lemma mset_concat_update:
  assumes "i < length xss" "xss ! i = xs"
  shows "mset (concat (xss[i := xs @ ys])) = mset (concat xss) + mset ys"
  using assms
proof (induction xss arbitrary: i)
  case (Cons zs xss)
  then show ?case
    by (cases i) simp_all
qed simp

lemma concat_shared:
  assumes "i < length xss" "j < length xss" "i \<noteq> j" "x \<in> set (xss ! i)" "x \<in> set (xss ! j)"
  shows "\<not> distinct (concat xss)"
  using assms
proof (induction xss arbitrary: i j)
  case (Cons zs xss)
  have "x \<in> set (concat xss)" if "k < length xss" "x \<in> set (xss ! k)" for k
    using that nth_mem by fastforce
  with Cons show ?case
    by (cases i; cases j) auto
qed simp

lemma distinct_submset:
  assumes "mset xs \<subseteq># mset ys" "distinct ys"
  shows "distinct xs"
proof -
  obtain zs where "mset ys = mset (xs @ zs)"
    using assms(1) by (metis ex_mset mset_append subset_mset.add_diff_inverse)
  then show ?thesis
    using assms(2) mset_eq_imp_distinct_iff [of ys "xs @ zs"] by simp
qed

locale rely_guarantee =
  fixes step :: "'c \<Rightarrow> 'w \<Rightarrow> 'p \<Rightarrow> 'w \<times> 'g list \<times> 'p"
    and inv :: "'w \<Rightarrow> bool"
    and later :: "'w \<Rightarrow> 'w \<Rightarrow> bool"
    and safe :: "'p \<Rightarrow> 'w \<Rightarrow> bool"
    and entitled :: "'g list \<Rightarrow> 'p \<Rightarrow> bool"
    and given :: "'w \<Rightarrow> 'g list"
  assumes later_refl: "inv w \<Longrightarrow> later w w"
    and later_trans: "later w w' \<Longrightarrow> later w' w'' \<Longrightarrow> later w w''"
    and safe_later: "safe p w \<Longrightarrow> later w w' \<Longrightarrow> safe p w'"
    and step_keeps: "inv w \<Longrightarrow> safe p w \<Longrightarrow> step c w p = (w', won, p') \<Longrightarrow> inv w' \<and> later w w' \<and> safe p' w'"
    and step_gives: "step c w p = (w', won, p') \<Longrightarrow> mset (given w) + mset won \<subseteq># mset (given w')"
    and step_entitled: "entitled held p \<Longrightarrow> step c w p = (w', won, p') \<Longrightarrow> entitled (held @ won) p'"
    and given_once: "inv w \<Longrightarrow> distinct (given w)"
begin

lemma pool_ok:
  assumes "pool step starts w0 w ts"
    and "inv w0" "given w0 = []"
    and starts: "\<And>p w. p \<in> starts \<Longrightarrow> inv w \<Longrightarrow> safe p w" "\<And>p. p \<in> starts \<Longrightarrow> entitled [] p"
  shows "inv w \<and> later w0 w \<and> list_all (\<lambda>(held, p). safe p w \<and> entitled held p) ts \<and>
    mset (concat (map fst ts)) \<subseteq># mset (given w)"
  using assms(1)
proof (induction rule: pool.induct)
  case init
  show ?case
    using assms(2,3) later_refl by simp
next
  case (spawn w ts p)
  then show ?case
    using starts by (simp add: list_all_iff)
next
  case (act w ts i held p c w' won p')
  from act have hp: "safe p w" "entitled held p" "inv w"
    by (auto simp: list_all_length)
  note st = step_keeps [OF hp(3,1) act.hyps(4)]
  have "safe q w \<Longrightarrow> safe q w'" for q
    using safe_later st by blast
  then have "list_all (\<lambda>(held, p). safe p w' \<and> entitled held p) (ts[i := (held @ won, p')])"
    using act.IH st step_entitled [OF hp(2) act.hyps(4)] act.hyps(2)
    by (auto simp: list_all_length nth_list_update split: prod.splits)
  moreover have "mset (concat (map fst (ts[i := (held @ won, p')]))) = mset (concat (map fst ts)) + mset won"
    using mset_concat_update [of i "map fst ts" held won] act.hyps(2,3) by (simp add: map_update)
  then have "mset (concat (map fst (ts[i := (held @ won, p')]))) \<subseteq># mset (given w')"
    using act.IH step_gives [OF act.hyps(4)] by (metis subset_mset.add_mono subset_mset.order_refl subset_mset.order_trans)
  ultimately show ?case
    using act.IH st later_trans by blast
qed

lemma pool_exclusive:
  assumes "pool step starts w0 w ts" "inv w0" "given w0 = []"
    and "\<And>p w. p \<in> starts \<Longrightarrow> inv w \<Longrightarrow> safe p w" "\<And>p. p \<in> starts \<Longrightarrow> entitled [] p"
    and "i < length ts" "j < length ts" "x \<in> set (fst (ts ! i))" "x \<in> set (fst (ts ! j))"
  shows "i = j"
proof (rule ccontr)
  assume "i \<noteq> j"
  note ok = pool_ok [OF assms(1-5)]
  have "\<not> distinct (concat (map fst ts))"
    using concat_shared [of i "map fst ts" j x] \<open>i \<noteq> j\<close> assms(6-9) by simp
  moreover have "distinct (concat (map fst ts))"
    using ok given_once [of w] distinct_submset by blast
  ultimately show False by blast
qed

end

end
