(* ===== verification/Approval.thy ===== *)
theory Approval
  imports Audit_Log Interleaving "HOL-Library.Product_Lexorder"
begin

text \<open>
  The four-eyes workflow: \<^verbatim>\<open>server/internal/approval/approval.go\<close> (classes, policy,
  fingerprint), \<^verbatim>\<open>server/internal/approval/engine.go\<close> (the engine) and
  \<^verbatim>\<open>server/internal/database/approval.go\<close> (its store). An engine operation is a program
  over the calls it makes to the store, the clock, the identifier source and the audit
  log, so that one definition has both a sequential reading and an interleaved one, in
  which other callers act between any two of its calls.
\<close>

section \<open>Classes, statuses and policy\<close>

definition ClassCACreate :: string where "ClassCACreate = ''ca.create''"
definition ClassCARotate :: string where "ClassCARotate = ''ca.rotate''"
definition ClassCARetire :: string where "ClassCARetire = ''ca.retire''"
definition ClassProfileChange :: string where "ClassProfileChange = ''profile.change''"
definition ClassBulkRevoke :: string where "ClassBulkRevoke = ''revocation.bulk''"
definition ClassEscrowPolicy :: string where "ClassEscrowPolicy = ''escrow.policy''"
definition ClassKEKRotate :: string where "ClassKEKRotate = ''secret.kek_rotate''"
definition ClassCertIssue :: string where "ClassCertIssue = ''cert.issue''"
definition ClassTokenCreate :: string where "ClassTokenCreate = ''token.create''"

definition Classes :: "string list" where
  "Classes = [ClassCACreate, ClassCARotate, ClassCARetire, ClassProfileChange, ClassBulkRevoke,
     ClassEscrowPolicy, ClassKEKRotate, ClassCertIssue, ClassTokenCreate]"

definition classTitles :: "string \<rightharpoonup> string" where
  "classTitles = [ClassCACreate \<mapsto> ''CA creation'', ClassCARotate \<mapsto> ''CA key rotation'',
     ClassCARetire \<mapsto> ''CA retirement'', ClassProfileChange \<mapsto> ''issuance-profile change'',
     ClassBulkRevoke \<mapsto> ''bulk revocation'', ClassEscrowPolicy \<mapsto> ''escrow-policy change'',
     ClassKEKRotate \<mapsto> ''secret KEK rotation'', ClassCertIssue \<mapsto> ''certificate issuance'',
     ClassTokenCreate \<mapsto> ''API token creation'']"

definition ValidClass :: "string \<Rightarrow> bool" where
  "ValidClass c \<longleftrightarrow> classTitles c \<noteq> None"

definition ClassTitle :: "string \<Rightarrow> string" where
  "ClassTitle c = (case classTitles c of Some t \<Rightarrow> t | None \<Rightarrow> c)"

definition StatusPending :: string where "StatusPending = ''pending''"
definition StatusApproved :: string where "StatusApproved = ''approved''"
definition StatusRejected :: string where "StatusRejected = ''rejected''"
definition StatusExecuted :: string where "StatusExecuted = ''executed''"
definition StatusExpired :: string where "StatusExpired = ''expired''"

definition DecisionApprove :: string where "DecisionApprove = ''approve''"
definition DecisionReject :: string where "DecisionReject = ''reject''"

definition OutcomeDenied :: string where "OutcomeDenied = ''denied''"
definition OutcomeExpired :: string where "OutcomeExpired = ''expired''"

definition DefaultTTL :: int where "DefaultTTL = 72 * 3600 * 1000000000"

lemmas status_defs = StatusPending_def StatusApproved_def StatusRejected_def StatusExecuted_def StatusExpired_def

datatype approval_error =
    ErrNotFound | ErrSelfApproval | ErrAlreadyDecided | ErrExpired | StateError string
  | StoreError string string | Cancelled string

record Policy =
  pol_Enabled :: bool
  pol_DefaultThreshold :: int
  pol_Thresholds :: "string \<rightharpoonup> int"
  pol_TTL :: int

definition Required :: "Policy \<Rightarrow> string \<Rightarrow> int" where
  "Required p cls = (case pol_Thresholds p cls of Some n \<Rightarrow> n | None \<Rightarrow> pol_DefaultThreshold p)"

definition Guarded :: "Policy \<Rightarrow> string \<Rightarrow> bool" where
  "Guarded p cls \<longleftrightarrow> pol_Enabled p \<and> Required p cls > 0"

definition Policy_ttl :: "Policy \<Rightarrow> int" where
  "Policy_ttl p = (if pol_TTL p > 0 then pol_TTL p else DefaultTTL)"

definition Fingerprint :: "hash_fn \<Rightarrow> string \<Rightarrow> string \<Rightarrow> string \<Rightarrow> string" where
  "Fingerprint sha256 cls resourceKey params =
     hex_encode (sha256 (str_bytes cls @ [0] @ str_bytes resourceKey @ [0] @ str_bytes params))"

section \<open>The store\<close>

record ApprovalDecision =
  ad_ID :: int
  ad_ApprovalID :: string
  ad_Approver :: string
  ad_ApproverName :: string
  ad_Decision :: string
  ad_Comment :: string
  ad_CreatedAt :: time

record PendingApproval =
  pa_ID :: string
  pa_TenantID :: string
  pa_OperationClass :: string
  pa_ResourceKey :: string
  pa_ResourceName :: string
  pa_Fingerprint :: string
  pa_Summary :: string
  pa_Details :: string
  pa_RequestedBy :: string
  pa_RequestedByName :: string
  pa_RequiredApprovals :: int
  pa_Status :: string
  pa_CreatedAt :: time
  pa_ExpiresAt :: time
  pa_DecidedAt :: "time option"
  pa_ExecutedAt :: "time option"
  pa_ApprovalsCount :: nat
  pa_Decisions :: "ApprovalDecision list"
  pa_Payload :: string
  pa_Result :: string

definition Expired :: "PendingApproval \<Rightarrow> time \<Rightarrow> bool" where
  "Expired p now \<longleftrightarrow> pa_ExpiresAt p \<noteq> zero_time \<and> pa_ExpiresAt p < now"

text \<open>
  The two tables, the audit events handed over and the terminal outcomes reported. The
  field \<open>w_executions\<close> keeps, for the proofs only, the requests that were moved to executed.
\<close>

record World =
  w_requests :: "PendingApproval list"
  w_decisions :: "ApprovalDecision list"
  w_events :: "Event list"
  w_terminal :: "(string \<times> string) list"
  w_executions :: "string list"

definition CountApprovalDecisions :: "string \<Rightarrow> string \<Rightarrow> World \<Rightarrow> nat" where
  "CountApprovalDecisions approvalID decision w =
     length (filter (\<lambda>d. ad_ApprovalID d = approvalID \<and> ad_Decision d = decision) (w_decisions w))"

definition scanPendingApproval :: "World \<Rightarrow> PendingApproval \<Rightarrow> PendingApproval" where
  "scanPendingApproval w p =
     p\<lparr>pa_ApprovalsCount := CountApprovalDecisions (pa_ID p) DecisionApprove w, pa_Decisions := []\<rparr>"

definition CreatePendingApproval :: "time \<Rightarrow> PendingApproval \<Rightarrow> World \<Rightarrow> (string, PendingApproval) result \<times> World" where
  "CreatePendingApproval now a w =
     (let a = (if pa_CreatedAt a = zero_time then a\<lparr>pa_CreatedAt := now\<rparr> else a);
          a = (if pa_TenantID a = '''' then a\<lparr>pa_TenantID := DefaultTenantID\<rparr> else a);
          a = (if pa_Status a = '''' then a\<lparr>pa_Status := ''pending''\<rparr> else a)
      in if pa_ID a \<in> set (map pa_ID (w_requests w)) then (Inl ''UNIQUE constraint failed'', w)
         else (Inr a, w\<lparr>w_requests := w_requests w @ [a]\<rparr>))"

definition ListApprovalDecisions :: "string \<Rightarrow> World \<Rightarrow> ApprovalDecision list" where
  "ListApprovalDecisions approvalID w =
     sort_key (\<lambda>d. (ad_CreatedAt d, ad_ID d)) (filter (\<lambda>d. ad_ApprovalID d = approvalID) (w_decisions w))"

definition GetPendingApproval :: "string \<Rightarrow> World \<Rightarrow> PendingApproval option" where
  "GetPendingApproval i w =
     map_option (\<lambda>p. (scanPendingApproval w p)\<lparr>pa_Decisions := ListApprovalDecisions i w\<rparr>)
       (find (\<lambda>p. pa_ID p = i) (w_requests w))"

definition newest_first :: "PendingApproval list \<Rightarrow> PendingApproval list" where
  "newest_first ps = rev (sort_key pa_CreatedAt ps)"

definition open_status :: "PendingApproval \<Rightarrow> bool" where
  "open_status p \<longleftrightarrow> pa_Status p \<in> set [''pending'', ''approved'']"

definition FindOpenApproval :: "string \<Rightarrow> string \<Rightarrow> string \<Rightarrow> World \<Rightarrow> PendingApproval option" where
  "FindOpenApproval tenantID cls fingerprint w =
     (case newest_first (filter (\<lambda>p. pa_TenantID p = tenantID \<and> pa_OperationClass p = cls \<and>
              pa_Fingerprint p = fingerprint \<and> open_status p) (w_requests w)) of
        [] \<Rightarrow> None
      | p # _ \<Rightarrow> Some (scanPendingApproval w p))"

definition ListPendingApprovals :: "string \<Rightarrow> string \<Rightarrow> string \<Rightarrow> int \<Rightarrow> World \<Rightarrow> PendingApproval list" where
  "ListPendingApprovals tenantID status cls limit w =
     (let limit = (if limit \<le> 0 then 200 else limit) in
      map (scanPendingApproval w)
        (take (nat limit)
          (newest_first (filter (\<lambda>p. (tenantID \<noteq> '''' \<longrightarrow> pa_TenantID p = tenantID) \<and>
             (status \<noteq> '''' \<longrightarrow> pa_Status p = status) \<and> (cls \<noteq> '''' \<longrightarrow> pa_OperationClass p = cls)) (w_requests w)))))"

text \<open>\<^verbatim>\<open>INSERT OR IGNORE\<close> under the unique key (approval, approver).\<close>

definition AddApprovalDecision :: "time \<Rightarrow> ApprovalDecision \<Rightarrow> World \<Rightarrow> bool \<times> World" where
  "AddApprovalDecision now d w =
     (let d = (if ad_CreatedAt d = zero_time then d\<lparr>ad_CreatedAt := now\<rparr> else d);
          d = d\<lparr>ad_ID := int (length (w_decisions w)) + 1\<rparr>
      in if list_ex (\<lambda>e. ad_ApprovalID e = ad_ApprovalID d \<and> ad_Approver e = ad_Approver d) (w_decisions w)
         then (False, w)
         else (True, w\<lparr>w_decisions := w_decisions w @ [d]\<rparr>))"

definition stamp :: "string \<Rightarrow> time \<Rightarrow> PendingApproval \<Rightarrow> PendingApproval" where
  "stamp to at p =
     (let p = p\<lparr>pa_Status := to\<rparr> in
      if to \<in> set [''approved'', ''rejected'', ''expired''] then p\<lparr>pa_DecidedAt := Some at\<rparr>
      else if to = ''executed'' then p\<lparr>pa_ExecutedAt := Some at\<rparr>
      else p)"

definition SetApprovalStatus :: "string \<Rightarrow> string \<Rightarrow> string \<Rightarrow> time \<Rightarrow> World \<Rightarrow> bool \<times> World" where
  "SetApprovalStatus i from to at w =
     (let changed = list_ex (\<lambda>p. pa_ID p = i \<and> pa_Status p = from) (w_requests w)
      in (changed, w\<lparr>w_requests := map (\<lambda>p. if pa_ID p = i \<and> pa_Status p = from then stamp to at p else p) (w_requests w),
                     w_executions := (if changed \<and> to = StatusExecuted then w_executions w @ [i] else w_executions w)\<rparr>))"

definition SetApprovalResult :: "string \<Rightarrow> string \<Rightarrow> World \<Rightarrow> World" where
  "SetApprovalResult i outcome w =
     w\<lparr>w_requests := map (\<lambda>p. if pa_ID p = i then p\<lparr>pa_Result := outcome\<rparr> else p) (w_requests w)\<rparr>"

definition ListExpirableApprovals :: "time \<Rightarrow> World \<Rightarrow> PendingApproval list" where
  "ListExpirableApprovals now w =
     map (scanPendingApproval w)
       (sort_key pa_ExpiresAt (filter (\<lambda>p. open_status p \<and> pa_ExpiresAt p \<le> now) (w_requests w)))"

section \<open>Programs\<close>

datatype 'r prog =
    Ret 'r
  | CallNow "time \<Rightarrow> 'r prog"
  | CallNewID "string \<Rightarrow> 'r prog"
  | CallCancelled "string option \<Rightarrow> 'r prog"
  | CallAudit Event "'r prog"
  | CallTerminal PendingApproval string "'r prog"
  | CallCreate PendingApproval "(string, PendingApproval) result \<Rightarrow> 'r prog"
  | CallGet string "(string, PendingApproval option) result \<Rightarrow> 'r prog"
  | CallFindOpen string string string "(string, PendingApproval option) result \<Rightarrow> 'r prog"
  | CallList string string string int "(string, PendingApproval list) result \<Rightarrow> 'r prog"
  | CallAddDecision ApprovalDecision "(string, bool) result \<Rightarrow> 'r prog"
  | CallCount string string "(string, nat) result \<Rightarrow> 'r prog"
  | CallSetStatus string string string time "(string, bool) result \<Rightarrow> 'r prog"
  | CallSetResult string string "string option \<Rightarrow> 'r prog"
  | CallListExpirable time "(string, PendingApproval list) result \<Rightarrow> 'r prog"

text \<open>The engine: its policy, and whether an auditor and a terminal hook are installed.\<close>

record Engine =
  en_pol :: Policy
  en_audit :: bool
  en_onTerminal :: bool

definition Engine_Policy :: "Engine option \<Rightarrow> Policy" where
  "Engine_Policy e =
     (case e of None \<Rightarrow> \<lparr>pol_Enabled = False, pol_DefaultThreshold = 0, pol_Thresholds = Map.empty, pol_TTL = 0\<rparr>
      | Some e \<Rightarrow> en_pol e)"

definition SetTerminalHook :: "bool \<Rightarrow> Engine option \<Rightarrow> Engine option" where
  "SetTerminalHook installed e = map_option (\<lambda>e. e\<lparr>en_onTerminal := installed\<rparr>) e"

definition fireTerminal :: "Engine \<Rightarrow> PendingApproval \<Rightarrow> string \<Rightarrow> 'r prog \<Rightarrow> 'r prog" where
  "fireTerminal e pa outcome k = (if en_onTerminal e then CallTerminal pa outcome k else k)"

definition ActionApprovalRequest :: string where "ActionApprovalRequest = ''approval.request''"
definition ActionApprovalApprove :: string where "ActionApprovalApprove = ''approval.approve''"
definition ActionApprovalReject :: string where "ActionApprovalReject = ''approval.reject''"
definition ActionApprovalExecute :: string where "ActionApprovalExecute = ''approval.execute''"
definition ActionApprovalExpire :: string where "ActionApprovalExpire = ''approval.expire''"

definition record_event ::
  "Engine \<Rightarrow> PendingApproval \<Rightarrow> string \<Rightarrow> string \<Rightarrow> string \<Rightarrow> string \<Rightarrow> string \<Rightarrow> string \<Rightarrow> 'r prog \<Rightarrow> 'r prog" where
  "record_event e pa action actor actorName ip outcome detail k =
     (if \<not> en_audit e then k
      else CallNow (\<lambda>now. CallAudit
        \<lparr>ev_Seq = 0, ev_ID = '''', ev_Timestamp = now, ev_Actor = actor, ev_ActorName = actorName, ev_ActorRoles = '''',
         ev_Action = action, ev_Tenant = pa_TenantID pa, ev_Target = pa_ID pa,
         ev_TargetName = pa_OperationClass pa @ '':'' @ pa_ResourceKey pa, ev_Result = outcome, ev_Detail = detail,
         ev_IP = ip, ev_RequestID = '''', ev_PrevHash = '''', ev_Hash = ''''\<rparr> k))"

record GuardRequest =
  gr_Class :: string
  gr_ResourceKey :: string
  gr_ResourceName :: string
  gr_Summary :: string
  gr_Details :: string
  gr_Params :: string
  gr_Actor :: string
  gr_ActorName :: string
  gr_Tenant :: string
  gr_IP :: string
  gr_Payload :: string
  gr_ParkOnly :: bool

definition GuardRequest_tenant :: "GuardRequest \<Rightarrow> string" where
  "GuardRequest_tenant r = (if gr_Tenant r = '''' then DefaultTenantID else gr_Tenant r)"

definition GuardRequest_params :: "GuardRequest \<Rightarrow> string" where
  "GuardRequest_params r = (if gr_Params r \<noteq> '''' then gr_Params r else gr_ResourceKey r)"

record GuardResult =
  gu_Allowed :: bool
  gu_Approval :: "PendingApproval option"
  gu_Reason :: string
  gu_Created :: bool

definition guard_fingerprint :: "hash_fn \<Rightarrow> GuardRequest \<Rightarrow> string" where
  "guard_fingerprint sha256 req = Fingerprint sha256 (gr_Class req) (gr_ResourceKey req) (GuardRequest_params req)"

definition Guard_create ::
  "hash_fn \<Rightarrow> Engine \<Rightarrow> GuardRequest \<Rightarrow> time \<Rightarrow> (approval_error, GuardResult) result prog" where
  "Guard_create sha256 e req now =
     CallNewID (\<lambda>i.
       let pa = \<lparr>pa_ID = ''apr_'' @ i, pa_TenantID = GuardRequest_tenant req, pa_OperationClass = gr_Class req,
             pa_ResourceKey = gr_ResourceKey req, pa_ResourceName = gr_ResourceName req,
             pa_Fingerprint = guard_fingerprint sha256 req,
             pa_Summary = gr_Summary req, pa_Details = gr_Details req, pa_RequestedBy = gr_Actor req,
             pa_RequestedByName = gr_ActorName req, pa_RequiredApprovals = Required (en_pol e) (gr_Class req),
             pa_Status = StatusPending, pa_CreatedAt = now, pa_ExpiresAt = now + Policy_ttl (en_pol e),
             pa_DecidedAt = None, pa_ExecutedAt = None, pa_ApprovalsCount = 0, pa_Decisions = [],
             pa_Payload = gr_Payload req, pa_Result = ''''\<rparr>
       in CallCreate pa (\<lambda>r. case r of
            Inl err \<Rightarrow> Ret (Inl (StoreError ''approval: recording request: '' err))
          | Inr pa \<Rightarrow>
              record_event e pa ActionApprovalRequest (gr_Actor req) (gr_ActorName req) (gr_IP req) ''success''
                (''requires '' @ dec_int (pa_RequiredApprovals pa) @ '' distinct approver(s)'')
                (Ret (Inr \<lparr>gu_Allowed = False, gu_Approval = Some pa, gu_Reason = ''approval required'', gu_Created = True\<rparr>))))"

definition Guard_consume ::
  "Engine \<Rightarrow> GuardRequest \<Rightarrow> time \<Rightarrow> PendingApproval \<Rightarrow> (approval_error, GuardResult) result prog" where
  "Guard_consume e req now pa =
     CallSetStatus (pa_ID pa) StatusApproved StatusExecuted now (\<lambda>r. case r of
         Inl err \<Rightarrow> Ret (Inl (StoreError ''approval: consuming approved request: '' err))
       | Inr ok \<Rightarrow>
           if ok then
             let pa = pa\<lparr>pa_Status := StatusExecuted, pa_ExecutedAt := Some now\<rparr> in
             record_event e pa ActionApprovalExecute (gr_Actor req) (gr_ActorName req) (gr_IP req) ''success''
               ''threshold met; operation authorized''
               (Ret (Inr \<lparr>gu_Allowed = True, gu_Approval = Some pa, gu_Reason = ''approved'', gu_Created = False\<rparr>))
           else
             CallGet (pa_ID pa) (\<lambda>r.
               Ret (Inr \<lparr>gu_Allowed = False, gu_Approval = (case r of Inr p \<Rightarrow> p | Inl _ \<Rightarrow> None),
                         gu_Reason = ''request already consumed'', gu_Created = False\<rparr>)))"

text \<open>A stale request is retired before a fresh one is recorded.\<close>

definition Guard_retire ::
  "hash_fn \<Rightarrow> Engine \<Rightarrow> GuardRequest \<Rightarrow> time \<Rightarrow> PendingApproval \<Rightarrow> (string, bool) result \<Rightarrow> (approval_error, GuardResult) result prog" where
  "Guard_retire sha256 e req now existing r =
     (case r of
        Inr True \<Rightarrow>
          record_event e existing ActionApprovalExpire (gr_Actor req) (gr_ActorName req) (gr_IP req) ''success''
            ''expired before execution''
            (fireTerminal e existing OutcomeExpired (Guard_create sha256 e req now))
      | _ \<Rightarrow> Guard_create sha256 e req now)"

definition Guard_existing ::
  "hash_fn \<Rightarrow> Engine \<Rightarrow> GuardRequest \<Rightarrow> time \<Rightarrow> PendingApproval \<Rightarrow> (approval_error, GuardResult) result prog" where
  "Guard_existing sha256 e req now existing =
     (if Expired existing now then
        CallSetStatus (pa_ID existing) (pa_Status existing) StatusExpired now (Guard_retire sha256 e req now existing)
      else if pa_Status existing = StatusApproved then
        (if gr_ParkOnly req then
           Ret (Inr \<lparr>gu_Allowed = False, gu_Approval = Some existing,
                     gu_Reason = ''approved; awaiting completion'', gu_Created = False\<rparr>)
         else Guard_consume e req now existing)
      else if pa_Status existing = StatusPending then
        Ret (Inr \<lparr>gu_Allowed = False, gu_Approval = Some existing,
                  gu_Reason = ''awaiting approvals'', gu_Created = False\<rparr>)
      else Guard_create sha256 e req now)"

definition Guard :: "hash_fn \<Rightarrow> Engine option \<Rightarrow> GuardRequest \<Rightarrow> (approval_error, GuardResult) result prog" where
  "Guard sha256 eng req =
     (let pass = Ret (Inr \<lparr>gu_Allowed = True, gu_Approval = None, gu_Reason = ''not guarded'', gu_Created = False\<rparr>)
      in case eng of
        None \<Rightarrow> pass
      | Some e \<Rightarrow>
          if \<not> Guarded (en_pol e) (gr_Class req) then pass
          else
            let tenant = GuardRequest_tenant req; fp = guard_fingerprint sha256 req in
            CallNow (\<lambda>now.
              CallFindOpen tenant (gr_Class req) fp (\<lambda>r. case r of
                Inl err \<Rightarrow> Ret (Inl (StoreError ''approval: looking up open request: '' err))
              | Inr None \<Rightarrow> Guard_create sha256 e req now
              | Inr (Some existing) \<Rightarrow> Guard_existing sha256 e req now existing)))"

definition load :: "string \<Rightarrow> (approval_error \<Rightarrow> 'r prog) \<Rightarrow> (PendingApproval \<Rightarrow> 'r prog) \<Rightarrow> 'r prog" where
  "load i fail k =
     CallGet i (\<lambda>r. case r of
         Inl err \<Rightarrow> fail (StoreError ''approval: loading request: '' err)
       | Inr None \<Rightarrow> fail ErrNotFound
       | Inr (Some pa) \<Rightarrow> k pa)"

definition load_result :: "string \<Rightarrow> (approval_error, PendingApproval) result prog" where
  "load_result i = load i (\<lambda>e. Ret (Inl e)) (\<lambda>pa. Ret (Inr pa))"

definition expire :: "Engine \<Rightarrow> PendingApproval \<Rightarrow> string \<Rightarrow> string \<Rightarrow> string \<Rightarrow> 'r prog \<Rightarrow> 'r prog" where
  "expire e pa actor actorName ip k =
     CallNow (\<lambda>now. CallSetStatus (pa_ID pa) (pa_Status pa) StatusExpired now (\<lambda>r. case r of
         Inr True \<Rightarrow>
           record_event e pa ActionApprovalExpire actor actorName ip ''success'' ''expired''
             (fireTerminal e pa OutcomeExpired k)
       | _ \<Rightarrow> k))"

definition em_dash :: string where "em_dash = [CHR 0xE2, CHR 0x80, CHR 0x94]"

definition Approve_finish ::
  "Engine \<Rightarrow> string \<Rightarrow> PendingApproval \<Rightarrow> string \<Rightarrow> string \<Rightarrow> string \<Rightarrow> string \<Rightarrow> (approval_error, PendingApproval) result prog" where
  "Approve_finish e i pa approver approverName ip detail =
     record_event e pa ActionApprovalApprove approver approverName ip ''success'' detail (load_result i)"

definition Approve_count ::
  "Engine \<Rightarrow> string \<Rightarrow> PendingApproval \<Rightarrow> string \<Rightarrow> string \<Rightarrow> string \<Rightarrow> time \<Rightarrow> (string, nat) result \<Rightarrow>
   (approval_error, PendingApproval) result prog" where
  "Approve_count e i pa approver approverName ip now r =
     (case r of
        Inl err \<Rightarrow> Ret (Inl (StoreError ''approval: counting approvals: '' err))
      | Inr n \<Rightarrow>
          let detail = dec_int (int n) @ '' of '' @ dec_int (pa_RequiredApprovals pa) @ '' approval(s)'' in
          if int n \<ge> pa_RequiredApprovals pa then
            CallSetStatus i StatusPending StatusApproved now (\<lambda>r. case r of
              Inl err \<Rightarrow> Ret (Inl (StoreError ''approval: marking approved: '' err))
            | Inr ok \<Rightarrow>
                Approve_finish e i pa approver approverName ip
                  (if ok then detail @ ''; threshold met '' @ em_dash @ '' operation authorized'' else detail))
          else Approve_finish e i pa approver approverName ip detail)"

definition Approve_vote ::
  "Engine \<Rightarrow> string \<Rightarrow> PendingApproval \<Rightarrow> string \<Rightarrow> string \<Rightarrow> string \<Rightarrow> time \<Rightarrow> (string, bool) result \<Rightarrow>
   (approval_error, PendingApproval) result prog" where
  "Approve_vote e i pa approver approverName ip now r =
     (case r of
        Inl err \<Rightarrow> Ret (Inl (StoreError ''approval: recording decision: '' err))
      | Inr inserted \<Rightarrow>
          if \<not> inserted then Ret (Inl ErrAlreadyDecided)
          else CallCount i DecisionApprove (Approve_count e i pa approver approverName ip now))"

definition Approve ::
  "Engine \<Rightarrow> string \<Rightarrow> string \<Rightarrow> string \<Rightarrow> string \<Rightarrow> string \<Rightarrow> (approval_error, PendingApproval) result prog" where
  "Approve e i approver approverName comment ip =
     load i (\<lambda>err. Ret (Inl err)) (\<lambda>pa.
       CallNow (\<lambda>now.
         if pa_Status pa \<noteq> StatusPending then Ret (Inl (StateError (pa_Status pa)))
         else if Expired pa now then expire e pa approver approverName ip (Ret (Inl ErrExpired))
         else if approver = pa_RequestedBy pa then
           record_event e pa ActionApprovalApprove approver approverName ip ''denied'' ''self-approval denied''
             (Ret (Inl ErrSelfApproval))
         else
           CallAddDecision \<lparr>ad_ID = 0, ad_ApprovalID = i, ad_Approver = approver, ad_ApproverName = approverName,
               ad_Decision = DecisionApprove, ad_Comment = comment, ad_CreatedAt = now\<rparr>
             (Approve_vote e i pa approver approverName ip now)))"

definition Claim ::
  "Engine \<Rightarrow> string \<Rightarrow> string \<Rightarrow> string \<Rightarrow> string \<Rightarrow> (approval_error, PendingApproval option \<times> bool) result prog" where
  "Claim e i actor actorName ip =
     load i (\<lambda>err. Ret (Inl err)) (\<lambda>pa.
       if pa_Status pa = StatusExecuted then Ret (Inr (Some pa, False))
       else if pa_Status pa \<noteq> StatusApproved then Ret (Inl (StateError (pa_Status pa)))
       else
         CallNow (\<lambda>now. CallSetStatus i StatusApproved StatusExecuted now (\<lambda>r. case r of
             Inl err \<Rightarrow> Ret (Inl (StoreError ''approval: claiming approved request: '' err))
           | Inr ok \<Rightarrow>
               if \<not> ok then load i (\<lambda>_. Ret (Inr (None, False))) (\<lambda>pa. Ret (Inr (Some pa, False)))
               else
                 let pa = pa\<lparr>pa_Status := StatusExecuted, pa_ExecutedAt := Some now\<rparr> in
                 record_event e pa ActionApprovalExecute actor actorName ip ''success''
                   ''threshold met; operation completed''
                   (Ret (Inr (Some pa, True))))))"

definition RecordResult :: "string \<Rightarrow> string \<Rightarrow> (approval_error, unit) result prog" where
  "RecordResult i outcome =
     CallSetResult i outcome (\<lambda>r. case r of
         Some err \<Rightarrow> Ret (Inl (StoreError ''approval: recording result: '' err))
       | None \<Rightarrow> Ret (Inr ()))"

definition Reject ::
  "Engine \<Rightarrow> string \<Rightarrow> string \<Rightarrow> string \<Rightarrow> string \<Rightarrow> string \<Rightarrow> (approval_error, PendingApproval) result prog" where
  "Reject e i approver approverName comment ip =
     load i (\<lambda>err. Ret (Inl err)) (\<lambda>pa.
       CallNow (\<lambda>now.
         if pa_Status pa \<noteq> StatusPending then Ret (Inl (StateError (pa_Status pa)))
         else if Expired pa now then expire e pa approver approverName ip (Ret (Inl ErrExpired))
         else
           CallAddDecision \<lparr>ad_ID = 0, ad_ApprovalID = i, ad_Approver = approver, ad_ApproverName = approverName,
               ad_Decision = DecisionReject, ad_Comment = comment, ad_CreatedAt = now\<rparr> (\<lambda>_.
             CallSetStatus i StatusPending StatusRejected now (\<lambda>r. case r of
               Inl err \<Rightarrow> Ret (Inl (StoreError ''approval: marking rejected: '' err))
             | Inr rejected \<Rightarrow>
                 let detail = (if comment \<noteq> '''' then ''rejected: '' @ comment else ''rejected'') in
                 record_event e pa ActionApprovalReject approver approverName ip ''success'' detail
                   (if rejected then fireTerminal e pa OutcomeDenied (load_result i) else load_result i)))))"

definition Engine_Get :: "string \<Rightarrow> (approval_error, PendingApproval) result prog" where
  "Engine_Get i = load_result i"

record Query =
  q_TenantID :: string
  q_Status :: string
  q_Class :: string
  q_Limit :: int

definition Engine_List :: "Query \<Rightarrow> (approval_error, PendingApproval list) result prog" where
  "Engine_List q =
     CallList (q_TenantID q) (q_Status q) (q_Class q) (q_Limit q) (\<lambda>r. case r of
         Inl err \<Rightarrow> Ret (Inl (StoreError '''' err))
       | Inr ps \<Rightarrow> Ret (Inr ps))"

fun sweepLoop :: "Engine \<Rightarrow> time \<Rightarrow> PendingApproval list \<Rightarrow> nat \<Rightarrow> (approval_error, nat) result prog" where
  "sweepLoop e now [] n = Ret (Inr n)"
| "sweepLoop e now (pa # rest) n =
     CallCancelled (\<lambda>c. case c of
         Some err \<Rightarrow> Ret (Inl (Cancelled err))
       | None \<Rightarrow>
           CallSetStatus (pa_ID pa) (pa_Status pa) StatusExpired now (\<lambda>r. case r of
             Inr True \<Rightarrow>
               record_event e pa ActionApprovalExpire ''system'' '''' '''' ''success'' ''expired (swept)''
                 (fireTerminal e pa OutcomeExpired (sweepLoop e now rest (n + 1)))
           | _ \<Rightarrow> sweepLoop e now rest n))"

definition SweepExpired :: "Engine option \<Rightarrow> (approval_error, nat) result prog" where
  "SweepExpired eng =
     (case eng of
        None \<Rightarrow> Ret (Inr 0)
      | Some e \<Rightarrow>
          if \<not> pol_Enabled (en_pol e) then Ret (Inr 0)
          else CallNow (\<lambda>now. CallListExpirable now (\<lambda>r. case r of
              Inl err \<Rightarrow> Ret (Inl (StoreError ''approval: listing expirable requests: '' err))
            | Inr ps \<Rightarrow> sweepLoop e now ps 0)))"

section \<open>One call of a program\<close>

text \<open>
  What the environment decides about a call: whether it reports a failure, whether a
  failed write nevertheless took effect, the clock, a random identifier, and whether the
  request was cancelled.
\<close>

record Choice =
  ch_fail :: "string option"
  ch_applied :: bool
  ch_now :: time
  ch_id :: string
  ch_cancel :: "string option"

definition answer :: "Choice \<Rightarrow> 'a \<Rightarrow> (string, 'a) result" where
  "answer c v = (case ch_fail c of Some err \<Rightarrow> Inl err | None \<Rightarrow> Inr v)"

definition written :: "Choice \<Rightarrow> World \<Rightarrow> World \<Rightarrow> World" where
  "written c w w' = (if ch_fail c = None \<or> ch_applied c then w' else w)"

fun step :: "Choice \<Rightarrow> World \<Rightarrow> 'r prog \<Rightarrow> World \<times> string list \<times> 'r prog" where
  "step c w (Ret r) = (w, [], Ret r)"
| "step c w (CallNow k) = (w, [], k (ch_now c))"
| "step c w (CallNewID k) = (w, [], k (ch_id c))"
| "step c w (CallCancelled k) = (w, [], k (ch_cancel c))"
| "step c w (CallAudit e k) = (written c w (w\<lparr>w_events := w_events w @ [e]\<rparr>), [], k)"
| "step c w (CallTerminal pa outcome k) = (w\<lparr>w_terminal := w_terminal w @ [(pa_ID pa, outcome)]\<rparr>, [], k)"
| "step c w (CallCreate pa k) =
     (let (r, w') = CreatePendingApproval (ch_now c) pa w
      in (written c w w', [], k (case ch_fail c of Some err \<Rightarrow> Inl err | None \<Rightarrow> r)))"
| "step c w (CallGet i k) = (w, [], k (answer c (GetPendingApproval i w)))"
| "step c w (CallFindOpen t cls fp k) = (w, [], k (answer c (FindOpenApproval t cls fp w)))"
| "step c w (CallList t s cls n k) = (w, [], k (answer c (ListPendingApprovals t s cls n w)))"
| "step c w (CallAddDecision d k) =
     (let (ok, w') = AddApprovalDecision (ch_now c) d w in (written c w w', [], k (answer c ok)))"
| "step c w (CallCount i d k) = (w, [], k (answer c (CountApprovalDecisions i d w)))"
| "step c w (CallSetStatus i from to at k) =
     (let (ok, w') = SetApprovalStatus i from to at w
      in (written c w w', if ch_fail c = None \<and> ok \<and> to = StatusExecuted then [i] else [], k (answer c ok)))"
| "step c w (CallSetResult i outcome k) = (written c w (SetApprovalResult i outcome w), [], k (ch_fail c))"
| "step c w (CallListExpirable now k) = (w, [], k (answer c (ListExpirableApprovals now w)))"

text \<open>Running a program alone, with the same environment for every call.\<close>

primrec exec :: "'r prog \<Rightarrow> Choice \<Rightarrow> World \<Rightarrow> World \<times> 'r" where
  "exec (Ret r) c w = (w, r)"
| "exec (CallNow k) c w = exec (k (ch_now c)) c w"
| "exec (CallNewID k) c w = exec (k (ch_id c)) c w"
| "exec (CallCancelled k) c w = exec (k (ch_cancel c)) c w"
| "exec (CallAudit e k) c w = exec k c (written c w (w\<lparr>w_events := w_events w @ [e]\<rparr>))"
| "exec (CallTerminal pa outcome k) c w = exec k c (w\<lparr>w_terminal := w_terminal w @ [(pa_ID pa, outcome)]\<rparr>)"
| "exec (CallCreate pa k) c w =
     exec (k (case ch_fail c of Some err \<Rightarrow> Inl err | None \<Rightarrow> fst (CreatePendingApproval (ch_now c) pa w))) c
       (written c w (snd (CreatePendingApproval (ch_now c) pa w)))"
| "exec (CallGet i k) c w = exec (k (answer c (GetPendingApproval i w))) c w"
| "exec (CallFindOpen t cls fp k) c w = exec (k (answer c (FindOpenApproval t cls fp w))) c w"
| "exec (CallList t s cls n k) c w = exec (k (answer c (ListPendingApprovals t s cls n w))) c w"
| "exec (CallAddDecision d k) c w =
     exec (k (answer c (fst (AddApprovalDecision (ch_now c) d w)))) c (written c w (snd (AddApprovalDecision (ch_now c) d w)))"
| "exec (CallCount i d k) c w = exec (k (answer c (CountApprovalDecisions i d w))) c w"
| "exec (CallSetStatus i from to at k) c w =
     exec (k (answer c (fst (SetApprovalStatus i from to at w)))) c (written c w (snd (SetApprovalStatus i from to at w)))"
| "exec (CallSetResult i outcome k) c w = exec (k (ch_fail c)) c (written c w (SetApprovalResult i outcome w))"
| "exec (CallListExpirable now k) c w = exec (k (answer c (ListExpirableApprovals now w))) c w"

section \<open>Rows\<close>

text \<open>What never changes about a request once it is recorded.\<close>

definition frozen :: "PendingApproval \<Rightarrow> string \<times> string \<times> string \<times> string \<times> string \<times> int" where
  "frozen p = (pa_ID p, pa_TenantID p, pa_OperationClass p, pa_Fingerprint p, pa_RequestedBy p, pa_RequiredApprovals p)"

lemma stamp_simps [simp]:
  "frozen (stamp to at p) = frozen p" "pa_ID (stamp to at p) = pa_ID p" "pa_Status (stamp to at p) = to"
  "pa_RequestedBy (stamp to at p) = pa_RequestedBy p" "pa_RequiredApprovals (stamp to at p) = pa_RequiredApprovals p"
  by (simp_all add: stamp_def frozen_def Let_def)

definition filled :: "time \<Rightarrow> PendingApproval \<Rightarrow> PendingApproval" where
  "filled now a =
     (let a = (if pa_CreatedAt a = zero_time then a\<lparr>pa_CreatedAt := now\<rparr> else a);
          a = (if pa_TenantID a = '''' then a\<lparr>pa_TenantID := DefaultTenantID\<rparr> else a)
      in if pa_Status a = '''' then a\<lparr>pa_Status := ''pending''\<rparr> else a)"

lemma CreatePendingApproval_alt:
  "CreatePendingApproval now a w =
     (if pa_ID a \<in> set (map pa_ID (w_requests w)) then (Inl ''UNIQUE constraint failed'', w)
      else (Inr (filled now a), w\<lparr>w_requests := w_requests w @ [filled now a]\<rparr>))"
  by (simp add: CreatePendingApproval_def filled_def Let_def)

lemma filled_simps [simp]:
  "pa_ID (filled now a) = pa_ID a" "pa_RequiredApprovals (filled now a) = pa_RequiredApprovals a"
  "pa_RequestedBy (filled now a) = pa_RequestedBy a"
  "pa_Status (filled now a) = (if pa_Status a = '''' then StatusPending else pa_Status a)"
  by (simp_all add: filled_def StatusPending_def Let_def)

end
