(* ===== verification/Approval_Flow.thy ===== *)
theory Approval_Flow
  imports Approval
begin

text \<open>
  The four-eyes workflow run by one caller at a time on a store that answers: enough
  approvals let the operation through, an expired request is refused at the gate but not
  on the completion path, and the sweep expires exactly the requests that are due.
\<close>

section \<open>The fingerprint\<close>

lemma str_bytes_zero: "(0 :: byte) \<in> set (str_bytes s) \<longleftrightarrow> CHR 0x00 \<in> set s"
proof -
  have zero: "(0 :: byte) = of_char (CHR 0x00)"
    by simp
  show ?thesis
    unfolding str_bytes_def set_map image_iff zero of_char_byte_inj by blast
qed

lemma split_at_zero:
  "xs @ (0 :: byte) # us = ys @ 0 # vs \<Longrightarrow> 0 \<notin> set xs \<Longrightarrow> 0 \<notin> set ys \<Longrightarrow> xs = ys \<and> us = vs"
  by (auto simp: append_eq_append_conv2 append_eq_Cons_conv Cons_eq_append_conv)

text \<open>
  An approval cannot be spent on a different operation: unless the hash has a
  collision, two operations with one fingerprint have the same class, resource and
  parameters, as long as class and resource names contain no NUL character.
\<close>

theorem Fingerprint_pins:
  assumes "Fingerprint sha256 c k p = Fingerprint sha256 c' k' p'"
    and "list_all (\<lambda>s. CHR 0x00 \<notin> set s) [c, k, c', k']"
  shows "collision sha256 \<or> (c, k, p) = (c', k', p')"
proof (rule disjCI)
  assume "(c, k, p) \<noteq> (c', k', p')"
  have "str_bytes c @ 0 # str_bytes k @ 0 # str_bytes p \<noteq> str_bytes c' @ 0 # str_bytes k' @ 0 # str_bytes p'"
  proof
    assume eq: "str_bytes c @ 0 # str_bytes k @ 0 # str_bytes p = str_bytes c' @ 0 # str_bytes k' @ 0 # str_bytes p'"
    have c: "c = c'" and rest: "str_bytes k @ 0 # str_bytes p = str_bytes k' @ 0 # str_bytes p'"
      using split_at_zero [OF eq] assms(2) by (simp_all add: str_bytes_zero str_bytes_inj)
    have "k = k'" "p = p'"
      using split_at_zero [OF rest] assms(2) by (simp_all add: str_bytes_zero str_bytes_inj)
    with c \<open>(c, k, p) \<noteq> (c', k', p')\<close> show False by simp
  qed
  with assms(1) show "collision sha256"
    by (auto simp: Fingerprint_def collision_def hex_encode_inj)
qed

theorem Fingerprint_pins_witness:
  "collision (\<lambda>xs. xs) \<or> (ClassCARotate, ''ca:1'', ''p'') = (ClassCARotate, ''ca:1'', ''p'')"
  by (rule Fingerprint_pins) (simp_all add: ClassCARotate_def)

section \<open>One caller at a time\<close>

definition noted ::
  "Engine \<Rightarrow> PendingApproval \<Rightarrow> string \<Rightarrow> string \<Rightarrow> string \<Rightarrow> string \<Rightarrow> string \<Rightarrow> string \<Rightarrow> Choice \<Rightarrow> World \<Rightarrow> World" where
  "noted e pa act actor name ip out d c w = fst (exec (record_event e pa act actor name ip out d (Ret ())) c w)"

lemma exec_record [simp]:
  "exec (record_event e pa act actor name ip out d k) c w = exec k c (noted e pa act actor name ip out d c w)"
  by (simp add: noted_def record_event_def)

lemma noted_same [simp]:
  "w_requests (noted e pa act actor name ip out d c w) = w_requests w"
  "w_decisions (noted e pa act actor name ip out d c w) = w_decisions w"
  by (simp_all add: noted_def record_event_def written_def)

definition reported :: "Engine \<Rightarrow> PendingApproval \<Rightarrow> string \<Rightarrow> World \<Rightarrow> World" where
  "reported e pa out w = (if en_onTerminal e then w\<lparr>w_terminal := w_terminal w @ [(pa_ID pa, out)]\<rparr> else w)"

lemma exec_fire [simp]: "exec (fireTerminal e pa out k) c w = exec k c (reported e pa out w)"
  by (simp add: fireTerminal_def reported_def)

lemma reported_same [simp]:
  "w_requests (reported e pa out w) = w_requests w" "w_decisions (reported e pa out w) = w_decisions w"
  by (simp_all add: reported_def)

lemma exec_load_result [simp]: "fst (exec (load_result i) c w) = w"
  by (simp add: load_result_def load_def split: sum.split option.split)

text \<open>A request recorded last, with an identifier of its own.\<close>

definition last_request :: "World \<Rightarrow> PendingApproval list \<Rightarrow> PendingApproval \<Rightarrow> bool" where
  "last_request w xs p \<longleftrightarrow> w_requests w = xs @ [p] \<and> list_all (\<lambda>q. pa_ID q \<noteq> pa_ID p) xs"

lemma find_last:
  assumes "last_request w xs p"
  shows "find (\<lambda>q. pa_ID q = pa_ID p) (w_requests w) = Some p"
proof -
  have "find (\<lambda>q. pa_ID q = pa_ID p) (ys @ [p]) = Some p" if "list_all (\<lambda>q. pa_ID q \<noteq> pa_ID p) ys" for ys
    using that by (induction ys) auto
  with assms show ?thesis
    by (simp add: last_request_def)
qed

lemma SetStatus_last:
  assumes "last_request w xs p" "pa_ID p = i" "pa_Status p = s"
  shows "fst (SetApprovalStatus i s t at w)" "w_requests (snd (SetApprovalStatus i s t at w)) = xs @ [stamp t at p]"
    "w_decisions (snd (SetApprovalStatus i s t at w)) = w_decisions w"
proof -
  have "map (\<lambda>q. if pa_ID q = i \<and> pa_Status q = s then stamp t at q else q) xs = xs"
    using assms(1,2) by (intro map_idI) (auto simp: last_request_def list_all_iff)
  then show "fst (SetApprovalStatus i s t at w)" "w_requests (snd (SetApprovalStatus i s t at w)) = xs @ [stamp t at p]"
    "w_decisions (snd (SetApprovalStatus i s t at w)) = w_decisions w"
    using assms by (simp_all add: SetApprovalStatus_def Let_def last_request_def)
qed

definition voted :: "World \<Rightarrow> string \<Rightarrow> string \<Rightarrow> bool" where
  "voted w i a \<longleftrightarrow> list_ex (\<lambda>d. ad_ApprovalID d = i \<and> ad_Approver d = a) (w_decisions w)"

lemma Get_last:
  assumes "last_request w xs p"
  shows "GetPendingApproval (pa_ID p) w =
    Some (p\<lparr>pa_ApprovalsCount := CountApprovalDecisions (pa_ID p) DecisionApprove w,
            pa_Decisions := ListApprovalDecisions (pa_ID p) w\<rparr>)"
  by (simp add: GetPendingApproval_def find_last [OF assms] scanPendingApproval_def)

lemma Expired_read [simp]: "Expired (p\<lparr>pa_ApprovalsCount := n, pa_Decisions := ds\<rparr>) now = Expired p now"
  by (simp add: Expired_def)

text \<open>What one approval does to a pending request that is not expired.\<close>

lemma exec_Approve_vote:
  assumes "last_request w xs p" "pa_Status p = StatusPending" "\<not> Expired p (ch_now c)" "ch_fail c = None"
    and "a \<noteq> pa_RequestedBy p" "\<not> voted w (pa_ID p) a"
    and w': "w' = fst (exec (Approve e (pa_ID p) a name comment ip) c w)"
  shows "w_requests w' = xs @ [if pa_RequiredApprovals p \<le> int (CountApprovalDecisions (pa_ID p) DecisionApprove w) + 1
           then stamp StatusApproved (ch_now c) p else p]"
    and "\<exists>d. w_decisions w' = w_decisions w @ [d] \<and> ad_ApprovalID d = pa_ID p \<and> ad_Approver d = a \<and> ad_Decision d = DecisionApprove"
proof -
  define d where "d = \<lparr>ad_ID = 0, ad_ApprovalID = pa_ID p, ad_Approver = a, ad_ApproverName = name,
               ad_Decision = DecisionApprove, ad_Comment = comment, ad_CreatedAt = ch_now c\<rparr>"
  define v where "v = snd (AddApprovalDecision (ch_now c) d w)"
  define d' where "d' = last (w_decisions v)"
  have ok: "fst (AddApprovalDecision (ch_now c) d w)"
    and v: "w_requests v = w_requests w" "w_decisions v = w_decisions w @ [d']"
    and d': "ad_ApprovalID d' = pa_ID p" "ad_Approver d' = a" "ad_Decision d' = DecisionApprove"
    using assms(6) by (auto simp: d'_def v_def d_def AddApprovalDecision_def voted_def Let_def)
  have n: "CountApprovalDecisions (pa_ID p) DecisionApprove v = CountApprovalDecisions (pa_ID p) DecisionApprove w + 1"
    using d' by (simp add: CountApprovalDecisions_def v)
  have last: "last_request v xs p"
    using assms(1) by (simp add: last_request_def v)
  let ?pa = "p\<lparr>pa_ApprovalsCount := CountApprovalDecisions (pa_ID p) DecisionApprove w,
            pa_Decisions := ListApprovalDecisions (pa_ID p) w\<rparr>"
  have run: "exec (Approve e (pa_ID p) a name comment ip) c w =
      exec (Approve_count e (pa_ID p) ?pa a name ip (ch_now c) (Inr (CountApprovalDecisions (pa_ID p) DecisionApprove v))) c v"
    using assms(2-5) ok
    by (simp add: Approve_def load_def answer_def Get_last [OF assms(1)] Approve_vote_def written_def
        d_def [symmetric] v_def [symmetric])
  show "w_requests w' = xs @ [if pa_RequiredApprovals p \<le> int (CountApprovalDecisions (pa_ID p) DecisionApprove w) + 1
           then stamp StatusApproved (ch_now c) p else p]"
    using assms(4) SetStatus_last(1,2) [OF last refl assms(2)] last
    by (simp add: w' run n Approve_count_def Approve_finish_def Let_def answer_def written_def last_request_def)
  have "w_decisions w' = w_decisions w @ [d']"
    using assms(4) SetStatus_last(1,3) [OF last refl assms(2)] v(2)
    by (simp add: w' run n Approve_count_def Approve_finish_def Let_def answer_def written_def)
  with d' show "\<exists>d. w_decisions w' = w_decisions w @ [d] \<and> ad_ApprovalID d = pa_ID p \<and> ad_Approver d = a \<and> ad_Decision d = DecisionApprove"
    by blast
qed

lemma exec_Approve_closed:
  assumes "last_request w xs p" "pa_Status p \<noteq> StatusPending" "ch_fail c = None"
  shows "exec (Approve e (pa_ID p) a name comment ip) c w = (w, Inl (StateError (pa_Status p)))"
  using assms(2,3) by (simp add: Approve_def load_def answer_def Get_last [OF assms(1)])

text \<open>The votes, one after the other.\<close>

definition approve_all ::
  "Engine \<Rightarrow> string \<Rightarrow> string \<Rightarrow> string \<Rightarrow> string \<Rightarrow> (string \<times> Choice) list \<Rightarrow> World \<Rightarrow> World" where
  "approve_all e i name comment ip votes w = fold (\<lambda>(a, c) w. fst (exec (Approve e i a name comment ip) c w)) votes w"

definition in_time :: "time \<Rightarrow> Choice \<Rightarrow> bool" where
  "in_time t c \<longleftrightarrow> ch_fail c = None \<and> ch_now c \<le> t"

lemma approve_all_closed:
  assumes "last_request w xs p" "pa_Status p \<noteq> StatusPending" "list_all (\<lambda>(a, c). in_time t c) votes"
  shows "approve_all e (pa_ID p) name comment ip votes w = w"
  using assms(3)
  by (induction votes) (simp_all add: approve_all_def in_time_def split_beta exec_Approve_closed [OF assms(1,2)])

lemma approve_all_meets:
  assumes "last_request w xs p" "pa_Status p = StatusPending" "list_all (\<lambda>(a, c). in_time (pa_ExpiresAt p) c) votes"
    and "distinct (map fst votes)" "list_all (\<lambda>(a, c). a \<noteq> pa_RequestedBy p \<and> \<not> voted w (pa_ID p) a) votes"
    and "int (CountApprovalDecisions (pa_ID p) DecisionApprove w) < pa_RequiredApprovals p"
    and "pa_RequiredApprovals p \<le> int (CountApprovalDecisions (pa_ID p) DecisionApprove w) + int (length votes)"
  shows "\<exists>at. w_requests (approve_all e (pa_ID p) name comment ip votes w) = xs @ [stamp StatusApproved at p]"
  using assms
proof (induction votes arbitrary: w)
  case Nil
  then show ?case by simp
next
  case (Cons vote votes)
  obtain a c where vote: "vote = (a, c)" by (cases vote)
  define w' where "w' = fst (exec (Approve e (pa_ID p) a name comment ip) c w)"
  have now: "\<not> Expired p (ch_now c)" "ch_fail c = None" and a: "a \<noteq> pa_RequestedBy p" "\<not> voted w (pa_ID p) a"
    using Cons.prems(3,5) by (auto simp: vote in_time_def Expired_def)
  note eff = exec_Approve_vote [OF Cons.prems(1,2) now a w'_def]
  obtain d where d: "w_decisions w' = w_decisions w @ [d]" "ad_ApprovalID d = pa_ID p" "ad_Approver d = a"
    "ad_Decision d = DecisionApprove"
    using eff(2) by blast
  have n: "CountApprovalDecisions (pa_ID p) DecisionApprove w' = CountApprovalDecisions (pa_ID p) DecisionApprove w + 1"
    using d by (simp add: CountApprovalDecisions_def)
  have rest: "approve_all e (pa_ID p) name comment ip (vote # votes) w = approve_all e (pa_ID p) name comment ip votes w'"
    by (simp add: approve_all_def vote w'_def)
  show ?case
  proof (cases "pa_RequiredApprovals p \<le> int (CountApprovalDecisions (pa_ID p) DecisionApprove w) + 1")
    case True
    then have l: "last_request w' xs (stamp StatusApproved (ch_now c) p)"
      using eff(1) Cons.prems(1) by (simp add: last_request_def)
    have "pa_Status (stamp StatusApproved (ch_now c) p) \<noteq> StatusPending"
      by (simp add: status_defs)
    moreover have "list_all (\<lambda>(a, c). in_time (pa_ExpiresAt p) c) votes"
      using Cons.prems(3) by simp
    ultimately have "approve_all e (pa_ID p) name comment ip votes w' = w'"
      using approve_all_closed [OF l, of "pa_ExpiresAt p" votes e name comment ip] by simp
    then have "w_requests (approve_all e (pa_ID p) name comment ip votes w') = xs @ [stamp StatusApproved (ch_now c) p]"
      using l unfolding last_request_def by metis
    then show ?thesis
      unfolding rest by (rule exI)
  next
    case False
    have l: "last_request w' xs p"
      using False eff(1) Cons.prems(1) by (simp add: last_request_def)
    have fresh: "list_all (\<lambda>(b, c). b \<noteq> pa_RequestedBy p \<and> \<not> voted w' (pa_ID p) b) votes"
      unfolding list_all_iff
    proof (clarify)
      fix b c'
      assume b: "(b, c') \<in> set votes"
      have "b \<noteq> a"
        using Cons.prems(4) b by (force simp: vote)
      moreover have "b \<noteq> pa_RequestedBy p" "\<not> voted w (pa_ID p) b"
        using Cons.prems(5) b by (auto simp: list_all_iff)
      ultimately show "b \<noteq> pa_RequestedBy p \<and> \<not> voted w' (pa_ID p) b"
        using d by (simp add: voted_def)
    qed
    show ?thesis
      unfolding rest
      by (rule Cons.IH [OF l Cons.prems(2) _ _ fresh]) (use Cons.prems(3,4,6,7) False n in simp_all)
  qed
qed

section \<open>From request to execution\<close>

lemma newest_first_Nil [simp]: "newest_first ps = [] \<longleftrightarrow> ps = []"
proof
  assume "newest_first ps = []"
  then have "length ps = 0"
    by (metis length_rev length_sort list.size(3) newest_first_def)
  then show "ps = []" by simp
qed (simp add: newest_first_def)

definition open_for :: "string \<Rightarrow> string \<Rightarrow> string \<Rightarrow> PendingApproval \<Rightarrow> bool" where
  "open_for t cls fp p \<longleftrightarrow> pa_TenantID p = t \<and> pa_OperationClass p = cls \<and> pa_Fingerprint p = fp \<and> open_status p"

lemma FindOpen_alt:
  "FindOpenApproval t cls fp w = (case newest_first (filter (open_for t cls fp) (w_requests w)) of
     [] \<Rightarrow> None | p # _ \<Rightarrow> Some (scanPendingApproval w p))"
  by (simp add: FindOpenApproval_def open_for_def [abs_def])

lemma FindOpen_last:
  assumes "FindOpenApproval t cls fp w = None" "w_requests w' = w_requests w @ [p]" "open_for t cls fp p"
  shows "FindOpenApproval t cls fp w' = Some (scanPendingApproval w' p)"
proof -
  have "newest_first (filter (open_for t cls fp) (w_requests w)) = []"
    using assms(1) by (simp add: FindOpen_alt split: list.splits)
  then have "filter (open_for t cls fp) (w_requests w) = []"
    by (simp only: newest_first_Nil)
  then have "filter (open_for t cls fp) (w_requests w') = [p]"
    using assms(2,3) by simp
  then show ?thesis
    by (simp add: FindOpen_alt newest_first_def)
qed

text \<open>The request the gate records.\<close>

definition parked :: "hash_fn \<Rightarrow> Engine \<Rightarrow> GuardRequest \<Rightarrow> Choice \<Rightarrow> PendingApproval" where
  "parked sha256 e req c = filled (ch_now c)
     \<lparr>pa_ID = ''apr_'' @ ch_id c, pa_TenantID = GuardRequest_tenant req, pa_OperationClass = gr_Class req,
      pa_ResourceKey = gr_ResourceKey req, pa_ResourceName = gr_ResourceName req,
      pa_Fingerprint = guard_fingerprint sha256 req,
      pa_Summary = gr_Summary req, pa_Details = gr_Details req, pa_RequestedBy = gr_Actor req,
      pa_RequestedByName = gr_ActorName req, pa_RequiredApprovals = Required (en_pol e) (gr_Class req),
      pa_Status = StatusPending, pa_CreatedAt = ch_now c, pa_ExpiresAt = ch_now c + Policy_ttl (en_pol e),
      pa_DecidedAt = None, pa_ExecutedAt = None, pa_ApprovalsCount = 0, pa_Decisions = [],
      pa_Payload = gr_Payload req, pa_Result = ''''\<rparr>"

lemma parked_simps [simp]:
  "pa_ID (parked sha256 e req c) = ''apr_'' @ ch_id c" "pa_TenantID (parked sha256 e req c) = GuardRequest_tenant req"
  "pa_OperationClass (parked sha256 e req c) = gr_Class req" "pa_Fingerprint (parked sha256 e req c) = guard_fingerprint sha256 req"
  "pa_RequestedBy (parked sha256 e req c) = gr_Actor req" "pa_Status (parked sha256 e req c) = StatusPending"
  "pa_RequiredApprovals (parked sha256 e req c) = Required (en_pol e) (gr_Class req)"
  "pa_ExpiresAt (parked sha256 e req c) = ch_now c + Policy_ttl (en_pol e)"
  by (simp_all add: parked_def filled_def Let_def StatusPending_def GuardRequest_tenant_def DefaultTenantID_def)

lemma exec_Guard_fresh:
  assumes "Guarded (en_pol e) (gr_Class req)" "ch_fail c = None"
    and "FindOpenApproval (GuardRequest_tenant req) (gr_Class req) (guard_fingerprint sha256 req) w = None"
    and "list_all (\<lambda>q. pa_ID q \<noteq> ''apr_'' @ ch_id c) (w_requests w)"
    and "(w', r) = exec (Guard sha256 (Some e) req) c w"
  shows "last_request w' (w_requests w) (parked sha256 e req c)" "w_decisions w' = w_decisions w"
    "r = Inr \<lparr>gu_Allowed = False, gu_Approval = Some (parked sha256 e req c), gu_Reason = ''approval required'', gu_Created = True\<rparr>"
proof -
  have "''apr_'' @ ch_id c \<notin> pa_ID ` set (w_requests w)"
    using assms(4) by (auto simp: list_all_iff)
  then show "last_request w' (w_requests w) (parked sha256 e req c)" "w_decisions w' = w_decisions w"
    "r = Inr \<lparr>gu_Allowed = False, gu_Approval = Some (parked sha256 e req c), gu_Reason = ''approval required'', gu_Created = True\<rparr>"
    using assms by (simp_all add: Guard_def Let_def answer_def Guard_create_def CreatePendingApproval_alt written_def
        last_request_def parked_def)
qed

lemma exec_Guard_approved:
  assumes "Guarded (en_pol e) (gr_Class req)" "ch_fail c = None" "\<not> gr_ParkOnly req"
    and "FindOpenApproval (GuardRequest_tenant req) (gr_Class req) (guard_fingerprint sha256 req) w = Some (scanPendingApproval w p)"
    and "last_request w xs p" "pa_Status p = StatusApproved" "\<not> Expired p (ch_now c)"
  shows "\<exists>g pa. snd (exec (Guard sha256 (Some e) req) c w) = Inr g \<and> gu_Allowed g \<and> gu_Approval g = Some pa \<and> pa_ID pa = pa_ID p"
    and "w_requests (fst (exec (Guard sha256 (Some e) req) c w)) = xs @ [stamp StatusExecuted (ch_now c) p]"
  using assms(1-4,6,7) SetStatus_last(1,2) [OF assms(5) refl assms(6), of StatusExecuted "ch_now c"]
  by (simp_all add: Guard_def Let_def answer_def Guard_existing_def scanPendingApproval_def Guard_consume_def written_def)

lemma approvals_suffice_spec:
  assumes "i = ''apr_'' @ ch_id c0" "Guarded (en_pol e) (gr_Class req)" "ch_fail c0 = None"
    and "FindOpenApproval (GuardRequest_tenant req) (gr_Class req) (guard_fingerprint sha256 req) w = None"
    and "list_all (\<lambda>q. pa_ID q \<noteq> i) (w_requests w)" "list_all (\<lambda>d. ad_ApprovalID d \<noteq> i) (w_decisions w)"
    and "distinct (map fst votes)" "gr_Actor req \<notin> set (map fst votes)"
    and "Required (en_pol e) (gr_Class req) \<le> int (length votes)"
    and "list_all (\<lambda>(a, c). in_time (ch_now c0 + Policy_ttl (en_pol e)) c) votes"
    and "in_time (ch_now c0 + Policy_ttl (en_pol e)) c1" "\<not> gr_ParkOnly again"
    and "gr_Class again = gr_Class req" "GuardRequest_tenant again = GuardRequest_tenant req"
    and "guard_fingerprint sha256 again = guard_fingerprint sha256 req"
    and "(w1, r0) = exec (Guard sha256 (Some e) req) c0 w"
    and "w2 = approve_all e i name comment ip votes w1"
    and "(w3, r1) = exec (Guard sha256 (Some e) again) c1 w2"
  shows "(\<exists>g. r0 = Inr g \<and> \<not> gu_Allowed g) \<and>
    (\<exists>g pa. r1 = Inr g \<and> gu_Allowed g \<and> gu_Approval g = Some pa \<and> pa_ID pa = i) \<and>
    map pa_Status (w_requests w3) = map pa_Status (w_requests w) @ [StatusExecuted]"
proof -
  let ?p = "parked sha256 e req c0"
  note fresh = exec_Guard_fresh [OF assms(2,3,4) assms(5) [unfolded assms(1)] assms(16)]
  have none: "CountApprovalDecisions i DecisionApprove w1 = 0"
    using assms(6) by (simp add: CountApprovalDecisions_def fresh(2) list_all_iff filter_empty_conv)
  have "\<exists>at. w_requests (approve_all e (pa_ID ?p) name comment ip votes w1) = w_requests w @ [stamp StatusApproved at ?p]"
  proof (rule approve_all_meets [OF fresh(1)])
    show "list_all (\<lambda>(a, c). a \<noteq> pa_RequestedBy ?p \<and> \<not> voted w1 (pa_ID ?p) a) votes"
      using assms(6,8) by (force simp: list_all_iff list_ex_iff voted_def fresh(2) assms(1))
  qed (use assms(2,7,9,10) none in \<open>simp_all add: assms(1) Guarded_def\<close>)
  then obtain at where w2: "w_requests w2 = w_requests w @ [stamp StatusApproved at ?p]"
    by (auto simp: assms(17) assms(1))
  have keep: "pa_TenantID (stamp t at q) = pa_TenantID q" "pa_OperationClass (stamp t at q) = pa_OperationClass q"
    "pa_Fingerprint (stamp t at q) = pa_Fingerprint q" "pa_ExpiresAt (stamp t at q) = pa_ExpiresAt q" for t at q
    by (simp_all add: stamp_def Let_def)
  have find: "FindOpenApproval (GuardRequest_tenant again) (gr_Class again) (guard_fingerprint sha256 again) w2 =
      Some (scanPendingApproval w2 (stamp StatusApproved at ?p))"
    by (rule FindOpen_last [OF _ w2]) (use assms(4,13-15) in \<open>simp_all add: keep open_for_def open_status_def StatusApproved_def\<close>)
  have last: "last_request w2 (w_requests w) (stamp StatusApproved at ?p)"
    using w2 fresh(1) by (simp add: last_request_def)
  have live: "\<not> Expired (stamp StatusApproved at ?p) (ch_now c1)"
    using assms(11) by (simp add: Expired_def keep in_time_def)
  have g: "Guarded (en_pol e) (gr_Class again)" "ch_fail c1 = None" "pa_Status (stamp StatusApproved at ?p) = StatusApproved"
    using assms(2,11,13) by (simp_all add: in_time_def)
  note fin = exec_Guard_approved [OF g(1,2) assms(12) find last g(3) live]
  show ?thesis
    using fresh(3) fin assms(18) [symmetric] by (simp add: assms(1))
qed

text \<open>
  C14. Enough approvals let the operation through. A guarded operation that finds no open
  request is refused and parked; when enough different people other than the requester
  then approve it before it expires, the next attempt at the same operation is allowed
  on that request, which becomes executed.
\<close>

theorem approvals_suffice:
  assumes "i = ''apr_'' @ ch_id c0" "Guarded (en_pol e) (gr_Class req)" "ch_fail c0 = None"
    and "FindOpenApproval (GuardRequest_tenant req) (gr_Class req) (guard_fingerprint sha256 req) w = None"
    and "list_all (\<lambda>q. pa_ID q \<noteq> i) (w_requests w)" "list_all (\<lambda>d. ad_ApprovalID d \<noteq> i) (w_decisions w)"
    and "distinct (map fst votes)" "gr_Actor req \<notin> set (map fst votes)"
    and "Required (en_pol e) (gr_Class req) \<le> int (length votes)"
    and "list_all (\<lambda>(a, c). in_time (ch_now c0 + Policy_ttl (en_pol e)) c) votes"
    and "in_time (ch_now c0 + Policy_ttl (en_pol e)) c1" "\<not> gr_ParkOnly again"
    and "gr_Class again = gr_Class req" "GuardRequest_tenant again = GuardRequest_tenant req"
    and "guard_fingerprint sha256 again = guard_fingerprint sha256 req"
    and "(w1, r0) = exec (Guard sha256 (Some e) req) c0 w"
    and "w2 = approve_all e i name comment ip votes w1"
    and "(w3, r1) = exec (Guard sha256 (Some e) again) c1 w2"
  shows "(\<exists>g. r0 = Inr g \<and> \<not> gu_Allowed g) \<and>
    (\<exists>g pa. r1 = Inr g \<and> gu_Allowed g \<and> gu_Approval g = Some pa \<and> pa_ID pa = i) \<and>
    map pa_Status (w_requests w3) = map pa_Status (w_requests w) @ [StatusExecuted]"
  by (rule approvals_suffice_spec [OF assms])

text \<open>Two people vote on a key rotation that needs two approvals.\<close>

definition demo_engine :: Engine where
  "demo_engine = \<lparr>en_pol = \<lparr>pol_Enabled = True, pol_DefaultThreshold = 2, pol_Thresholds = Map.empty, pol_TTL = 100\<rparr>,
     en_audit = True, en_onTerminal = False\<rparr>"

definition demo_request :: GuardRequest where
  "demo_request = \<lparr>gr_Class = ClassCARotate, gr_ResourceKey = ''ca:1'', gr_ResourceName = '''', gr_Summary = '''',
     gr_Details = '''', gr_Params = '''', gr_Actor = ''alice'', gr_ActorName = '''', gr_Tenant = '''', gr_IP = '''',
     gr_Payload = '''', gr_ParkOnly = False\<rparr>"

definition demo_choice :: "time \<Rightarrow> Choice" where
  "demo_choice t = \<lparr>ch_fail = None, ch_applied = False, ch_now = t, ch_id = ''7'', ch_cancel = None\<rparr>"

definition demo_world :: World where
  "demo_world = \<lparr>w_requests = [], w_decisions = [], w_events = [], w_terminal = [], w_executions = []\<rparr>"

text \<open>The demonstration run: request, two votes, request again.\<close>

definition demo_votes :: "(string \<times> Choice) list" where
  "demo_votes = [(''bob'', demo_choice 5), (''carol'', demo_choice 6)]"

definition demo_parked :: World where
  "demo_parked = fst (exec (Guard (\<lambda>_. []) (Some demo_engine) demo_request) (demo_choice 1) demo_world)"

lemma demo_allowed:
  "\<exists>g pa. snd (exec (Guard (\<lambda>_. []) (Some demo_engine) demo_request) (demo_choice 9)
      (approve_all demo_engine ''apr_7'' '''' '''' '''' demo_votes demo_parked)) = Inr g \<and>
    gu_Allowed g \<and> gu_Approval g = Some pa \<and> pa_ID pa = ''apr_7''"
  using approvals_suffice_spec [of "''apr_7''" "demo_choice 1" demo_engine demo_request "\<lambda>_. []" demo_world
      demo_votes "demo_choice 9" demo_request _ _ _ "''''" "''''" "''''",
      OF _ _ _ _ _ _ _ _ _ _ _ _ _ _ _ prod.collapse refl prod.collapse]
  by (simp add: demo_parked_def demo_votes_def demo_choice_def demo_engine_def demo_request_def demo_world_def
      Guarded_def Required_def FindOpenApproval_def newest_first_def in_time_def Policy_ttl_def)

theorem approvals_suffice_witness:
  "\<exists>g pa. snd (exec (Guard (\<lambda>_. []) (Some demo_engine) demo_request) (demo_choice 9)
      (approve_all demo_engine ''apr_7'' '''' '''' '''' [(''bob'', demo_choice 5), (''carol'', demo_choice 6)]
        (fst (exec (Guard (\<lambda>_. []) (Some demo_engine) demo_request) (demo_choice 1) demo_world)))) = Inr g \<and>
    gu_Allowed g \<and> gu_Approval g = Some pa \<and> pa_ID pa = ''apr_7''"
  using approvals_suffice [of "''apr_7''" "demo_choice 1" demo_engine demo_request "\<lambda>_. []" demo_world
      "[(''bob'', demo_choice 5), (''carol'', demo_choice 6)]" "demo_choice 9" demo_request _ _ _ "''''" "''''" "''''",
      OF _ _ _ _ _ _ _ _ _ _ _ _ _ _ _ prod.collapse refl prod.collapse]
  by (simp add: demo_choice_def demo_engine_def demo_request_def demo_world_def Guarded_def Required_def
      FindOpenApproval_def newest_first_def in_time_def Policy_ttl_def)

section \<open>Expiry\<close>


definition demo_approved :: PendingApproval where
  "demo_approved = stamp StatusApproved 50 (parked (\<lambda>_. []) demo_engine demo_request (demo_choice 1))"


definition due :: "time \<Rightarrow> PendingApproval \<Rightarrow> bool" where
  "due now p \<longleftrightarrow> open_status p \<and> pa_ExpiresAt p \<le> now"

definition swept :: "time \<Rightarrow> PendingApproval list \<Rightarrow> PendingApproval \<Rightarrow> PendingApproval" where
  "swept now ps p = (if pa_ID p \<in> set (map pa_ID ps) then stamp StatusExpired now p else p)"

lemma sweepLoop_exact:
  assumes "ch_fail c = None" "ch_cancel c = None" "distinct (map pa_ID ps)"
    and "list_all (\<lambda>p. \<exists>q\<in>set (w_requests w). pa_ID q = pa_ID p \<and> pa_Status q = pa_Status p) ps"
    and "distinct (map pa_ID (w_requests w))"
  shows "w_requests (fst (exec (sweepLoop e now ps n) c w)) = map (swept now ps) (w_requests w) \<and>
    snd (exec (sweepLoop e now ps n) c w) = Inr (n + length ps)"
  using assms
proof (induction ps arbitrary: n w)
  case Nil
  then show ?case by (simp add: swept_def [abs_def])
next
  case (Cons p ps)
  define v where "v = snd (SetApprovalStatus (pa_ID p) (pa_Status p) StatusExpired now w)"
  define w' where "w' = reported e p OutcomeExpired
    (noted e p ActionApprovalExpire ''system'' '''' '''' ''success'' ''expired (swept)'' c v)"
  obtain q where q: "q \<in> set (w_requests w)" "pa_ID q = pa_ID p" "pa_Status q = pa_Status p"
    using Cons.prems(4) by auto
  have uniq: "r = q" if "r \<in> set (w_requests w)" "pa_ID r = pa_ID p" for r
    using that q Cons.prems(5) by (auto simp: distinct_map inj_on_def)
  have ok: "fst (SetApprovalStatus (pa_ID p) (pa_Status p) StatusExpired now w)"
    using q by (auto simp: SetApprovalStatus_def Let_def list_ex_iff)
  have "(if pa_ID r = pa_ID p \<and> pa_Status r = pa_Status p then stamp StatusExpired now r else r) = swept now [p] r"
    if "r \<in> set (w_requests w)" for r
    using uniq [OF that] q(3) by (cases "pa_ID r = pa_ID p") (simp_all add: swept_def)
  then have w': "w_requests w' = map (swept now [p]) (w_requests w)"
    unfolding w'_def v_def by (simp add: SetApprovalStatus_def Let_def)
  have run: "exec (sweepLoop e now (p # ps) n) c w = exec (sweepLoop e now ps (n + 1)) c w'"
    using Cons.prems(1,2) ok by (simp add: answer_def written_def w'_def v_def)
  have ids: "map pa_ID (w_requests w') = map pa_ID (w_requests w)"
    by (simp add: w' swept_def)
  have rows: "list_all (\<lambda>p. \<exists>q\<in>set (w_requests w'). pa_ID q = pa_ID p \<and> pa_Status q = pa_Status p) ps"
    unfolding list_all_iff
  proof
    fix r
    assume r: "r \<in> set ps"
    then obtain s where s: "s \<in> set (w_requests w)" "pa_ID s = pa_ID r" "pa_Status s = pa_Status r"
      using Cons.prems(4) by (auto simp: list_all_iff)
    moreover have "pa_ID r \<in> set (map pa_ID ps)"
      using r by simp
    then have "swept now [p] s = s"
      using s(2) Cons.prems(3) by (auto simp: swept_def)
    ultimately show "\<exists>q\<in>set (w_requests w'). pa_ID q = pa_ID r \<and> pa_Status q = pa_Status r"
      unfolding w' by (metis imageI set_map)
  qed
  have compose: "swept now ps (swept now [p] r) = swept now (p # ps) r" for r
    using Cons.prems(3) by (auto simp: swept_def)
  have d: "distinct (map pa_ID ps)" "distinct (map pa_ID (w_requests w'))"
    using Cons.prems(3,5) ids by simp_all
  show ?case
    using Cons.IH [OF Cons.prems(1,2) d(1) rows d(2), of "n + 1"] by (simp add: run w' compose del: sweepLoop.simps)
qed

text \<open>
  The sweep expires exactly the requests that are due: every open request whose window
  has ended becomes expired at the time of the sweep, every other request stays as it is,
  and the number reported is the number expired.
\<close>

theorem SweepExpired_exact:
  assumes "distinct (map pa_ID (w_requests w))" "pol_Enabled (en_pol e)" "ch_fail c = None" "ch_cancel c = None"
    and "(w', r) = exec (SweepExpired (Some e)) c w"
  shows "w_requests w' = map (\<lambda>p. if due (ch_now c) p then stamp StatusExpired (ch_now c) p else p) (w_requests w) \<and>
    r = Inr (length (filter (due (ch_now c)) (w_requests w)))"
proof -
  define ps where "ps = ListExpirableApprovals (ch_now c) w"
  have ids: "map pa_ID ps = map pa_ID (sort_key pa_ExpiresAt (filter (due (ch_now c)) (w_requests w)))"
    by (simp add: ps_def ListExpirableApprovals_def due_def [abs_def] scanPendingApproval_def comp_def)
  have d: "distinct (map pa_ID ps)"
    unfolding ids using assms(1) by (auto simp: distinct_map inj_on_def)
  have rows: "list_all (\<lambda>p. \<exists>q\<in>set (w_requests w). pa_ID q = pa_ID p \<and> pa_Status q = pa_Status p) ps"
    by (auto simp: list_all_iff ps_def ListExpirableApprovals_def scanPendingApproval_def)
  have run: "exec (SweepExpired (Some e)) c w = exec (sweepLoop e (ch_now c) ps 0) c w"
    using assms(2,3) by (simp add: SweepExpired_def answer_def ps_def)
  have mem: "set (map pa_ID ps) = pa_ID ` set (filter (due (ch_now c)) (w_requests w))"
    unfolding ids by simp
  have "swept (ch_now c) ps p = (if due (ch_now c) p then stamp StatusExpired (ch_now c) p else p)"
    if "p \<in> set (w_requests w)" for p
  proof -
    have "pa_ID p \<in> set (map pa_ID ps) \<longleftrightarrow> due (ch_now c) p"
      unfolding mem using that assms(1) by (auto simp: distinct_map inj_on_def)
    then show ?thesis by (simp add: swept_def)
  qed
  moreover have "length ps = length (filter (due (ch_now c)) (w_requests w))"
    using arg_cong [OF ids, of length] by simp
  ultimately show ?thesis
    using assms(5) sweepLoop_exact [OF assms(3,4) d rows assms(1), of e "ch_now c" 0]
    by (simp add: run prod_eq_iff)
qed

theorem SweepExpired_exact_witness:
  "w_requests (fst (exec (SweepExpired (Some demo_engine)) (demo_choice 500) (demo_world\<lparr>w_requests := [demo_approved]\<rparr>))) =
     [stamp StatusExpired 500 demo_approved]"
  using SweepExpired_exact [of "demo_world\<lparr>w_requests := [demo_approved]\<rparr>" demo_engine "demo_choice 500", OF _ _ _ _ prod.collapse]
  by (simp add: due_def open_status_def demo_approved_def stamp_def status_defs demo_choice_def demo_engine_def
      Policy_ttl_def Let_def)

end
