(* ===== verification/Approval_Safety.thy ===== *)
theory Approval_Safety
  imports Approval_Flow
begin

text \<open>
  Safety of the four-eyes workflow under concurrency. Any number of callers run the
  engine's operations at once, their store calls interleaved in any order and some of
  them failing. The invariant of the store, what a caller may rely on while others act,
  and what each operation guarantees give the two statements at the end: a guarded
  operation is only allowed with enough distinct approvers, and only once.
\<close>

section \<open>The invariant of the store\<close>

definition approved_enough :: "World \<Rightarrow> PendingApproval \<Rightarrow> bool" where
  "approved_enough w p \<longleftrightarrow> pa_RequiredApprovals p \<le> int (CountApprovalDecisions (pa_ID p) DecisionApprove w)"

definition Inv :: "World \<Rightarrow> bool" where
  "Inv w \<longleftrightarrow>
     distinct (map pa_ID (w_requests w)) \<and>
     distinct (map (\<lambda>d. (ad_ApprovalID d, ad_Approver d)) (w_decisions w)) \<and>
     (\<forall>p\<in>set (w_requests w). pa_RequiredApprovals p \<ge> 1 \<and>
        (pa_Status p \<in> {StatusApproved, StatusExecuted} \<longrightarrow> approved_enough w p)) \<and>
     (\<forall>d\<in>set (w_decisions w). \<exists>p\<in>set (w_requests w). pa_ID p = ad_ApprovalID d \<and>
        (ad_Decision d = DecisionApprove \<longrightarrow> ad_Approver d \<noteq> pa_RequestedBy p)) \<and>
     distinct (w_executions w) \<and>
     (\<forall>i\<in>set (w_executions w). \<exists>p\<in>set (w_requests w). pa_ID p = i \<and> pa_Status p = StatusExecuted)"

definition extends :: "World \<Rightarrow> World \<Rightarrow> bool" where
  "extends w w' \<longleftrightarrow> frozen ` set (w_requests w) \<subseteq> frozen ` set (w_requests w') \<and>
     (\<exists>more. w_decisions w' = w_decisions w @ more)"

definition later :: "World \<Rightarrow> World \<Rightarrow> bool" where
  "later w w' \<longleftrightarrow> extends w w' \<and> Inv w'"

lemma extends_refl [simp]: "extends w w"
  by (simp add: extends_def)

lemma extends_trans: "extends w w' \<Longrightarrow> extends w' w'' \<Longrightarrow> extends w w''"
  by (auto simp: extends_def)

lemma later_refl: "Inv w \<Longrightarrow> later w w"
  by (simp add: later_def)

lemma later_trans: "later w w' \<Longrightarrow> later w' w'' \<Longrightarrow> later w w''"
  using extends_trans by (auto simp: later_def)

lemma Count_mono: "extends w w' \<Longrightarrow> CountApprovalDecisions i d w \<le> CountApprovalDecisions i d w'"
  by (auto simp: extends_def CountApprovalDecisions_def)

text \<open>
  What a call needs so that the invariant survives: a new request is pending and needs
  an approver; an approving vote is for a recorded request and not by its requester; a
  request leaves pending or approved only, becomes approved only with enough votes, and
  executed only from approved.
\<close>

definition create_ok :: "PendingApproval \<Rightarrow> bool" where
  "create_ok p \<longleftrightarrow> pa_RequiredApprovals p \<ge> 1 \<and> pa_Status p = StatusPending"

definition decision_ok :: "World \<Rightarrow> ApprovalDecision \<Rightarrow> bool" where
  "decision_ok w d \<longleftrightarrow> (\<exists>p\<in>set (w_requests w). pa_ID p = ad_ApprovalID d \<and>
     (ad_Decision d = DecisionApprove \<longrightarrow> ad_Approver d \<noteq> pa_RequestedBy p))"

definition status_ok :: "World \<Rightarrow> string \<Rightarrow> string \<Rightarrow> string \<Rightarrow> bool" where
  "status_ok w i from to \<longleftrightarrow> from \<in> {StatusPending, StatusApproved} \<and>
     (to = StatusApproved \<longrightarrow> (\<exists>p\<in>set (w_requests w). pa_ID p = i \<and> approved_enough w p)) \<and>
     (to = StatusExecuted \<longrightarrow> from = StatusApproved)"

lemma frozen_later:
  assumes "extends w w'" "p \<in> set (w_requests w)"
  obtains p' where "p' \<in> set (w_requests w')" "frozen p' = frozen p"
proof -
  have "frozen p \<in> frozen ` set (w_requests w')"
    using assms by (auto simp: extends_def)
  then show thesis
    using that by (elim imageE) simp
qed

lemma decision_ok_mono:
  assumes "decision_ok w d" "extends w w'"
  shows "decision_ok w' d"
proof -
  obtain p where p: "p \<in> set (w_requests w)" "pa_ID p = ad_ApprovalID d"
    "ad_Decision d = DecisionApprove \<longrightarrow> ad_Approver d \<noteq> pa_RequestedBy p"
    using assms(1) by (auto simp: decision_ok_def)
  obtain p' where "p' \<in> set (w_requests w')" "frozen p' = frozen p"
    using frozen_later [OF assms(2) p(1)] .
  with p show ?thesis
    by (auto simp: decision_ok_def frozen_def intro!: bexI [of _ p'])
qed

lemma status_ok_mono:
  assumes "status_ok w i from to" "extends w w'"
  shows "status_ok w' i from to"
proof -
  have "\<exists>p'\<in>set (w_requests w'). pa_ID p' = i \<and> approved_enough w' p'"
    if p: "p \<in> set (w_requests w)" "pa_ID p = i" "approved_enough w p" for p
  proof -
    obtain p' where p': "p' \<in> set (w_requests w')" "frozen p' = frozen p"
      using frozen_later [OF assms(2) p(1)] .
    then have "pa_ID p' = i" "approved_enough w' p'"
      using p Count_mono [OF assms(2), of i DecisionApprove] by (auto simp: frozen_def approved_enough_def)
    with p' show ?thesis by blast
  qed
  with assms(1) show ?thesis
    unfolding status_ok_def by blast
qed

lemma Inv_Create:
  assumes "Inv w" "create_ok p"
  shows "later w (snd (CreatePendingApproval now p w))"
proof -
  let ?w = "w\<lparr>w_requests := w_requests w @ [filled now p]\<rparr>"
  have p: "pa_RequiredApprovals (filled now p) \<ge> 1" "pa_Status (filled now p) = StatusPending"
    using assms(2) by (simp_all add: create_ok_def)
  have "Inv ?w" if "pa_ID p \<notin> set (map pa_ID (w_requests w))"
    unfolding Inv_def
  proof (intro conjI)
    show "\<forall>q\<in>set (w_requests ?w). 1 \<le> pa_RequiredApprovals q \<and>
        (pa_Status q \<in> {StatusApproved, StatusExecuted} \<longrightarrow> approved_enough ?w q)"
      using assms(1) p by (auto simp: Inv_def approved_enough_def CountApprovalDecisions_def status_defs)
  qed (use assms(1) that in \<open>auto simp: Inv_def\<close>)
  moreover have "extends w ?w"
    by (auto simp: extends_def)
  ultimately show ?thesis
    using assms(1) by (simp add: CreatePendingApproval_alt later_def)
qed

lemma Inv_AddDecision:
  assumes "Inv w" "decision_ok w d"
  shows "later w (snd (AddApprovalDecision now d w))"
proof -
  define e where "e = (if ad_CreatedAt d = zero_time then d\<lparr>ad_CreatedAt := now\<rparr> else d)
    \<lparr>ad_ID := int (length (w_decisions w)) + 1\<rparr>"
  have e: "ad_ApprovalID e = ad_ApprovalID d" "ad_Approver e = ad_Approver d" "ad_Decision e = ad_Decision d"
    by (simp_all add: e_def)
  let ?w = "w\<lparr>w_decisions := w_decisions w @ [e]\<rparr>"
  have ext: "extends w ?w"
    by (auto simp: extends_def)
  have "Inv ?w" if "\<not> list_ex (\<lambda>x. ad_ApprovalID x = ad_ApprovalID d \<and> ad_Approver x = ad_Approver d) (w_decisions w)"
    unfolding Inv_def
  proof (intro conjI)
    show "\<forall>q\<in>set (w_requests ?w). 1 \<le> pa_RequiredApprovals q \<and>
        (pa_Status q \<in> {StatusApproved, StatusExecuted} \<longrightarrow> approved_enough ?w q)"
      using assms(1) Count_mono [OF ext] by (fastforce simp: Inv_def approved_enough_def intro: order_trans)
    show "\<forall>x\<in>set (w_decisions ?w). \<exists>p\<in>set (w_requests ?w). pa_ID p = ad_ApprovalID x \<and>
        (ad_Decision x = DecisionApprove \<longrightarrow> ad_Approver x \<noteq> pa_RequestedBy p)"
      using assms e by (auto simp: Inv_def decision_ok_def)
    show "distinct (map (\<lambda>d. (ad_ApprovalID d, ad_Approver d)) (w_decisions ?w))"
      using assms(1) that e by (auto simp: Inv_def list_ex_iff)
  qed (use assms(1) in \<open>simp_all add: Inv_def\<close>)
  with ext show ?thesis
    using assms(1) e by (auto simp: AddApprovalDecision_def Let_def later_def e_def [symmetric])
qed

lemma Inv_SetStatus:
  assumes "Inv w" "status_ok w i from to"
  shows "later w (snd (SetApprovalStatus i from to at w))"
proof -
  let ?ch = "\<lambda>p. pa_ID p = i \<and> pa_Status p = from"
  let ?f = "\<lambda>p. if ?ch p then stamp to at p else p"
  define w' where "w' = snd (SetApprovalStatus i from to at w)"
  have w': "w_requests w' = map ?f (w_requests w)" "w_decisions w' = w_decisions w"
    "w_executions w' = (if list_ex ?ch (w_requests w) \<and> to = StatusExecuted then w_executions w @ [i] else w_executions w)"
    by (simp_all add: w'_def SetApprovalStatus_def Let_def)
  have enough: "approved_enough w' (?f p) \<longleftrightarrow> approved_enough w p" for p
    by (simp add: approved_enough_def CountApprovalDecisions_def w')
  have open_only: "from \<noteq> StatusExecuted"
    using assms(2) by (auto simp: status_ok_def status_defs)
  have same: "frozen (?f p) = frozen p" "pa_ID (?f p) = pa_ID p" "pa_RequestedBy (?f p) = pa_RequestedBy p"
    "pa_RequiredApprovals (?f p) = pa_RequiredApprovals p" for p
    by simp_all
  have "map frozen (w_requests w') = map frozen (w_requests w)"
    unfolding w' map_map comp_def same ..
  then have "frozen ` set (w_requests w') = frozen ` set (w_requests w)"
    by (metis set_map)
  then have "extends w w'"
    by (simp add: extends_def w')
  moreover have "Inv w'"
    unfolding Inv_def
  proof (intro conjI)
    show "distinct (map pa_ID (w_requests w'))"
      using assms(1) unfolding w' map_map comp_def same Inv_def by blast
    show "\<forall>q\<in>set (w_requests w'). 1 \<le> pa_RequiredApprovals q \<and>
        (pa_Status q \<in> {StatusApproved, StatusExecuted} \<longrightarrow> approved_enough w' q)"
    proof
      fix q
      assume "q \<in> set (w_requests w')"
      then obtain p where p: "p \<in> set (w_requests w)" "q = ?f p"
        by (auto simp: w')
      have one: "1 \<le> pa_RequiredApprovals p"
        and old: "pa_Status p \<in> {StatusApproved, StatusExecuted} \<longrightarrow> approved_enough w p"
        using assms(1) p(1) by (auto simp: Inv_def)
      have "approved_enough w p" if "pa_Status q \<in> {StatusApproved, StatusExecuted}"
      proof (cases "?ch p")
        case True
        with that p(2) have to: "to \<in> {StatusApproved, StatusExecuted}" by simp
        show ?thesis
        proof (cases "to = StatusApproved")
          case app: True
          obtain r where r: "r \<in> set (w_requests w)" "pa_ID r = i" "approved_enough w r"
            using assms(2) app by (auto simp: status_ok_def)
          have "r = p"
            using r p(1) True assms(1) by (auto simp: Inv_def distinct_map inj_on_def)
          with r show ?thesis by simp
        next
          case False
          with to assms(2) True have "pa_Status p = StatusApproved"
            by (auto simp: status_ok_def)
          with old show ?thesis by simp
        qed
      qed (use that p old in auto)
      with one show "1 \<le> pa_RequiredApprovals q \<and>
          (pa_Status q \<in> {StatusApproved, StatusExecuted} \<longrightarrow> approved_enough w' q)"
        using p(2) same(4) [of p] enough [of p] by simp
    qed
    show "\<forall>x\<in>set (w_decisions w'). \<exists>p\<in>set (w_requests w'). pa_ID p = ad_ApprovalID x \<and>
        (ad_Decision x = DecisionApprove \<longrightarrow> ad_Approver x \<noteq> pa_RequestedBy p)"
      using assms(1) unfolding Inv_def w' set_map bex_simps same by blast
    have fresh: "i \<notin> set (w_executions w)" if has: "list_ex ?ch (w_requests w)"
    proof
      assume "i \<in> set (w_executions w)"
      then obtain p where "p \<in> set (w_requests w)" "pa_ID p = i" "pa_Status p = StatusExecuted"
        using assms(1) by (auto simp: Inv_def)
      moreover obtain q where "q \<in> set (w_requests w)" "?ch q"
        using has by (auto simp: list_ex_iff)
      moreover have "p = q"
        using calculation assms(1) by (auto simp: Inv_def distinct_map inj_on_def)
      ultimately show False
        using open_only by simp
    qed
    then show "distinct (w_executions w')"
      using assms(1) by (auto simp: Inv_def w')
    show "\<forall>j\<in>set (w_executions w'). \<exists>p\<in>set (w_requests w'). pa_ID p = j \<and> pa_Status p = StatusExecuted"
    proof
      fix j
      assume j: "j \<in> set (w_executions w')"
      show "\<exists>p\<in>set (w_requests w'). pa_ID p = j \<and> pa_Status p = StatusExecuted"
      proof (cases "j \<in> set (w_executions w)")
        case True
        then obtain p where p: "p \<in> set (w_requests w)" "pa_ID p = j" "pa_Status p = StatusExecuted"
          using assms(1) by (auto simp: Inv_def)
        have "?f p \<in> set (w_requests w')"
          unfolding w' set_map using p(1) by (rule imageI)
        with p show ?thesis
          using open_only by (intro bexI [of _ "?f p"]) auto
      next
        case False
        with j have ex: "j = i" "list_ex ?ch (w_requests w)" "to = StatusExecuted"
          by (auto simp: w' split: if_splits)
        then obtain p where p: "p \<in> set (w_requests w)" "?ch p"
          by (auto simp: list_ex_iff)
        have "?f p \<in> set (w_requests w')"
          unfolding w' set_map using p(1) by (rule imageI)
        with p ex show ?thesis
          by (intro bexI [of _ "?f p"]) auto
      qed
    qed
  qed (use assms(1) w'(2) in \<open>simp add: Inv_def\<close>)
  ultimately show ?thesis
    by (simp add: later_def w'_def)
qed

lemma Inv_SetResult:
  assumes "Inv w"
  shows "later w (SetApprovalResult i outcome w)"
proof -
  let ?f = "\<lambda>p. if pa_ID p = i then p\<lparr>pa_Result := outcome\<rparr> else p"
  define w' where "w' = SetApprovalResult i outcome w"
  have w': "w_requests w' = map ?f (w_requests w)" "w_decisions w' = w_decisions w" "w_executions w' = w_executions w"
    by (simp_all add: w'_def SetApprovalResult_def)
  have same: "frozen (?f p) = frozen p" "pa_ID (?f p) = pa_ID p" "pa_RequestedBy (?f p) = pa_RequestedBy p"
    "pa_RequiredApprovals (?f p) = pa_RequiredApprovals p" "pa_Status (?f p) = pa_Status p" for p
    by (simp_all add: frozen_def)
  have enough: "approved_enough w' (?f p) \<longleftrightarrow> approved_enough w p" for p
    by (simp add: approved_enough_def CountApprovalDecisions_def w')
  have "map frozen (w_requests w') = map frozen (w_requests w)"
    unfolding w' map_map comp_def same ..
  then have "frozen ` set (w_requests w') = frozen ` set (w_requests w)"
    by (metis set_map)
  then have "extends w w'"
    by (simp add: extends_def w')
  moreover have "Inv w'"
    using assms unfolding Inv_def w' set_map map_map comp_def bex_simps ball_simps same enough by blast
  ultimately show ?thesis
    by (simp add: later_def w'_def)
qed

section \<open>Safe programs\<close>

text \<open>
  A program is safe in a world when each of its calls may be made in every world that
  can follow, whatever the calls before it answered.
\<close>

primrec safe :: "('r \<Rightarrow> World \<Rightarrow> bool) \<Rightarrow> 'r prog \<Rightarrow> World \<Rightarrow> bool" where
  "safe Q (Ret r) = (\<lambda>w. Q r w)"
| "safe Q (CallNow k) = (\<lambda>w. \<forall>t w'. later w w' \<longrightarrow> safe Q (k t) w')"
| "safe Q (CallNewID k) = (\<lambda>w. \<forall>i w'. later w w' \<longrightarrow> safe Q (k i) w')"
| "safe Q (CallCancelled k) = (\<lambda>w. \<forall>r w'. later w w' \<longrightarrow> safe Q (k r) w')"
| "safe Q (CallAudit e k) = (\<lambda>w. \<forall>w'. later w w' \<longrightarrow> safe Q k w')"
| "safe Q (CallTerminal pa outcome k) = (\<lambda>w. \<forall>w'. later w w' \<longrightarrow> safe Q k w')"
| "safe Q (CallCreate pa k) = (\<lambda>w. create_ok pa \<and> (\<forall>r w'. later w w' \<longrightarrow> safe Q (k r) w'))"
| "safe Q (CallGet i k) =
     (\<lambda>w. \<forall>w'. later w w' \<longrightarrow> (\<forall>err. safe Q (k (Inl err)) w') \<and> safe Q (k (Inr (GetPendingApproval i w'))) w')"
| "safe Q (CallFindOpen t cls fp k) =
     (\<lambda>w. \<forall>w'. later w w' \<longrightarrow> (\<forall>err. safe Q (k (Inl err)) w') \<and> safe Q (k (Inr (FindOpenApproval t cls fp w'))) w')"
| "safe Q (CallList t s cls n k) = (\<lambda>w. \<forall>r w'. later w w' \<longrightarrow> safe Q (k r) w')"
| "safe Q (CallAddDecision d k) = (\<lambda>w. decision_ok w d \<and> (\<forall>r w'. later w w' \<longrightarrow> safe Q (k r) w'))"
| "safe Q (CallCount i d k) =
     (\<lambda>w. \<forall>w'. later w w' \<longrightarrow> (\<forall>err. safe Q (k (Inl err)) w') \<and> safe Q (k (Inr (CountApprovalDecisions i d w'))) w')"
| "safe Q (CallSetStatus i from to at k) = (\<lambda>w. status_ok w i from to \<and> (\<forall>r w'. later w w' \<longrightarrow> safe Q (k r) w'))"
| "safe Q (CallSetResult i outcome k) = (\<lambda>w. \<forall>r w'. later w w' \<longrightarrow> safe Q (k r) w')"
| "safe Q (CallListExpirable now k) =
     (\<lambda>w. \<forall>w'. later w w' \<longrightarrow> (\<forall>err. safe Q (k (Inl err)) w') \<and> safe Q (k (Inr (ListExpirableApprovals now w'))) w')"

lemma safe_later:
  assumes "\<And>r w w'. Q r w \<Longrightarrow> later w w' \<Longrightarrow> Q r w'" "safe Q p w" "later w w'"
  shows "safe Q p w'"
proof -
  have next_: "later w w''" if "later w' w''" for w''
    using assms(3) that later_trans by blast
  have ext: "extends w w'"
    using assms(3) by (simp add: later_def)
  show ?thesis
    using assms(1) [OF _ assms(3)] assms(2) decision_ok_mono [OF _ ext] status_ok_mono [OF _ ext]
    by (cases p) (simp_all add: next_)
qed

lemma later_written: "Inv w \<Longrightarrow> later w w' \<Longrightarrow> later w (written c w w')"
  by (simp add: written_def later_refl)

lemma step_keeps:
  assumes "Inv w" "safe Q p w" "step c w p = (w', won, p')"
  shows "later w w' \<and> safe Q p' w'"
proof -
  note refl = later_refl [OF assms(1)]
  have events: "later w (w\<lparr>w_events := es\<rparr>)" "later w (w\<lparr>w_terminal := ts\<rparr>)" for es ts
    using assms(1) by (auto simp: later_def extends_def Inv_def approved_enough_def CountApprovalDecisions_def)
  note wr = later_written [OF assms(1)]
  show ?thesis
    using assms(2,3) refl events
      wr [OF Inv_Create [OF assms(1)]] wr [OF Inv_AddDecision [OF assms(1)]] wr [OF Inv_SetStatus [OF assms(1)]]
      wr [OF Inv_SetResult [OF assms(1)]] wr [OF events(1)]
    by (cases p) (auto simp: answer_def Let_def split_beta split: option.splits)
qed

section \<open>Finished calls\<close>

text \<open>The calls a server makes, and how each ended.\<close>

datatype outcome =
    OGuard "Engine option" GuardRequest "(approval_error, GuardResult) result"
  | OClaim string "(approval_error, PendingApproval option \<times> bool) result"
  | ODecide "(approval_error, PendingApproval) result"
  | OSweep "(approval_error, nat) result"
  | OResult "(approval_error, unit) result"
  | OList "(approval_error, PendingApproval list) result"

datatype call =
    DoGuard "Engine option" GuardRequest
  | DoApprove Engine string string string string string
  | DoReject Engine string string string string string
  | DoClaim Engine string string string string
  | DoSweep "Engine option"
  | DoResult string string
  | DoGet string
  | DoList Query

fun start :: "hash_fn \<Rightarrow> call \<Rightarrow> outcome prog" where
  "start sha256 (DoGuard eng req) = map_prog (OGuard eng req) (Guard sha256 eng req)"
| "start sha256 (DoApprove e i approver name comment ip) = map_prog ODecide (Approve e i approver name comment ip)"
| "start sha256 (DoReject e i approver name comment ip) = map_prog ODecide (Reject e i approver name comment ip)"
| "start sha256 (DoClaim e i actor name ip) = map_prog (OClaim i) (Claim e i actor name ip)"
| "start sha256 (DoSweep eng) = map_prog OSweep (SweepExpired eng)"
| "start sha256 (DoResult i outcome) = map_prog OResult (RecordResult i outcome)"
| "start sha256 (DoGet i) = map_prog ODecide (Engine_Get i)"
| "start sha256 (DoList q) = map_prog OList (Engine_List q)"

text \<open>The request whose operation an outcome authorizes.\<close>

fun authorized :: "outcome \<Rightarrow> string \<Rightarrow> bool" where
  "authorized (OGuard eng req (Inr g)) i \<longleftrightarrow> gu_Allowed g \<and> map_option pa_ID (gu_Approval g) = Some i"
| "authorized (OClaim j (Inr (_, won))) i \<longleftrightarrow> won \<and> i = j"
| "authorized _ i \<longleftrightarrow> False"

text \<open>An allowing answer of the gate names a recorded request for exactly this operation.\<close>

definition pinned :: "hash_fn \<Rightarrow> GuardRequest \<Rightarrow> PendingApproval \<Rightarrow> bool" where
  "pinned sha256 req p \<longleftrightarrow> pa_TenantID p = GuardRequest_tenant req \<and> pa_OperationClass p = gr_Class req \<and>
     pa_Fingerprint p = guard_fingerprint sha256 req"

fun result_ok :: "hash_fn \<Rightarrow> outcome \<Rightarrow> World \<Rightarrow> bool" where
  "result_ok sha256 (OGuard (Some e) req (Inr g)) w \<longleftrightarrow>
     (Guarded (en_pol e) (gr_Class req) \<and> gu_Allowed g \<longrightarrow>
        (\<exists>pa. gu_Approval g = Some pa \<and>
           (\<exists>p\<in>set (w_requests w). pa_ID p = pa_ID pa \<and> pinned sha256 req p)))"
| "result_ok sha256 _ w \<longleftrightarrow> True"

lemma result_ok_later:
  assumes "result_ok sha256 r w" "later w w'"
  shows "result_ok sha256 r w'"
proof (cases "\<exists>e req g. r = OGuard (Some e) req (Inr g)")
  case True
  then obtain e req g where r: "r = OGuard (Some e) req (Inr g)"
    by blast
  have move: "\<exists>q\<in>set (w_requests w'). pa_ID q = i \<and> pinned sha256 req q"
    if here: "\<exists>p\<in>set (w_requests w). pa_ID p = i \<and> pinned sha256 req p" for i
  proof -
    obtain p where p: "p \<in> set (w_requests w)" "pa_ID p = i" "pinned sha256 req p"
      using here by blast
    obtain q where "q \<in> set (w_requests w')" "frozen q = frozen p"
      using frozen_later [OF _ p(1), of w'] assms(2) by (auto simp: later_def)
    with p show ?thesis
      by (auto simp: frozen_def pinned_def intro!: bexI [of _ q])
  qed
  show ?thesis
    using assms(1) move unfolding r result_ok.simps(1) by blast
next
  case False
  then show ?thesis
    by (cases "(sha256, r, w)" rule: result_ok.cases) auto
qed

lemma safe_map: "safe Q (map_prog f p) = safe (\<lambda>r. Q (f r)) p"
  by (induction p) simp_all

section \<open>Every call of the engine is safe\<close>

definition known :: "World \<Rightarrow> PendingApproval \<Rightarrow> bool" where
  "known w pa \<longleftrightarrow> frozen pa \<in> frozen ` set (w_requests w)"

lemma known_later: "known w pa \<Longrightarrow> later w w' \<Longrightarrow> known w' pa"
  by (auto simp: known_def later_def extends_def)

lemma later_Inv: "later w w' \<Longrightarrow> Inv w'"
  by (simp add: later_def)

lemma frozen_scan [simp]:
  "frozen (scanPendingApproval w p) = frozen p" "frozen (p\<lparr>pa_Decisions := ds\<rparr>) = frozen p"
  "frozen (p\<lparr>pa_Status := s\<rparr>) = frozen p" "frozen (p\<lparr>pa_ExecutedAt := t\<rparr>) = frozen p"
  "pa_Status (scanPendingApproval w p) = pa_Status p" "pa_ID (scanPendingApproval w p) = pa_ID p"
  by (simp_all add: scanPendingApproval_def frozen_def)

lemma find_Some: "find P xs = Some x \<Longrightarrow> x \<in> set xs \<and> P x"
  by (auto simp: find_Some_iff)

lemma Get_known: "GetPendingApproval i w = Some pa \<Longrightarrow> known w pa \<and> pa_ID pa = i"
  by (auto simp: GetPendingApproval_def known_def dest!: find_Some)

lemma newest_first_set [simp]: "set (newest_first ps) = set ps"
  by (simp add: newest_first_def)

lemma FindOpen_known:
  assumes "FindOpenApproval t cls fp w = Some pa"
  shows "known w pa" "pa_Status pa \<in> {StatusPending, StatusApproved}" "pa_TenantID pa = t" "pa_OperationClass pa = cls"
    "pa_Fingerprint pa = fp"
proof -
  obtain p ps where p: "newest_first (filter (\<lambda>p. pa_TenantID p = t \<and> pa_OperationClass p = cls \<and>
      pa_Fingerprint p = fp \<and> open_status p) (w_requests w)) = p # ps" and pa: "pa = scanPendingApproval w p"
    using assms by (auto simp: FindOpenApproval_def split: list.splits)
  have "p \<in> set (newest_first (filter (\<lambda>p. pa_TenantID p = t \<and> pa_OperationClass p = cls \<and>
      pa_Fingerprint p = fp \<and> open_status p) (w_requests w)))"
    by (simp add: p)
  then have "p \<in> set (w_requests w)" "pa_TenantID p = t" "pa_OperationClass p = cls" "pa_Fingerprint p = fp" "open_status p"
    by simp_all
  then show "known w pa" "pa_Status pa \<in> {StatusPending, StatusApproved}" "pa_TenantID pa = t" "pa_OperationClass pa = cls"
    "pa_Fingerprint pa = fp"
    by (auto simp: pa known_def open_status_def status_defs scanPendingApproval_def frozen_def)
qed

lemma Expirable_open:
  "pa \<in> set (ListExpirableApprovals now w) \<Longrightarrow> pa_Status pa \<in> {StatusPending, StatusApproved}"
  by (auto simp: ListExpirableApprovals_def open_status_def status_defs)

lemma known_decision: "known w pa \<Longrightarrow> pa_ID pa = ad_ApprovalID d \<Longrightarrow> ad_Approver d \<noteq> pa_RequestedBy pa \<Longrightarrow> decision_ok w d"
  by (auto simp: known_def decision_ok_def frozen_def)

lemma known_reject: "known w pa \<Longrightarrow> pa_ID pa = ad_ApprovalID d \<Longrightarrow> ad_Decision d = DecisionReject \<Longrightarrow> decision_ok w d"
  by (auto simp: known_def decision_ok_def frozen_def DecisionReject_def DecisionApprove_def)

lemma known_approved:
  "known w pa \<Longrightarrow> pa_ID pa = i \<Longrightarrow> pa_RequiredApprovals pa \<le> int (CountApprovalDecisions i DecisionApprove w) \<Longrightarrow>
   status_ok w i StatusPending StatusApproved"
  by (auto simp: known_def status_ok_def approved_enough_def frozen_def status_defs)

lemma status_ok_close:
  "from \<in> {StatusPending, StatusApproved} \<Longrightarrow> to \<in> {StatusExpired, StatusRejected} \<Longrightarrow> status_ok w i from to"
  "status_ok w i StatusApproved StatusExecuted"
  by (auto simp: status_ok_def status_defs)

lemma safe_record:
  assumes "Inv w" "\<And>w'. later w w' \<Longrightarrow> safe Q k w'"
  shows "safe Q (record_event e pa action actor name ip outcome detail k) w"
  using assms later_refl by (auto simp: record_event_def intro: later_trans)

lemma safe_fire:
  assumes "Inv w" "\<And>w'. later w w' \<Longrightarrow> safe Q k w'"
  shows "safe Q (fireTerminal e pa outcome k) w"
  using assms later_refl by (auto simp: fireTerminal_def)

lemma safe_load:
  assumes "\<And>err w'. later w w' \<Longrightarrow> safe Q (fail err) w'"
    and "\<And>pa w'. later w w' \<Longrightarrow> known w' pa \<Longrightarrow> pa_ID pa = i \<Longrightarrow> safe Q (k pa) w'"
  shows "safe Q (load i fail k) w"
  using assms by (auto simp: load_def dest: Get_known split: option.splits)

lemma safe_load_result: "(\<And>r w. Q r w) \<Longrightarrow> safe Q (load_result i) w"
  unfolding load_result_def by (rule safe_load) simp_all

lemma safe_create:
  assumes "Guarded (en_pol e) (gr_Class req)" "\<And>r w. \<not> (\<exists>g. r = Inr g \<and> gu_Allowed g) \<Longrightarrow> Q r w"
  shows "safe Q (Guard_create sha256 e req now) w"
  using assms
  by (auto simp: Guard_create_def create_ok_def Guarded_def Let_def intro!: safe_record dest: later_Inv split: sum.splits)

lemma safe_consume:
  assumes "known w pa" "Inv w"
    and "\<And>r w. \<not> (\<exists>g. r = Inr g \<and> gu_Allowed g) \<Longrightarrow> Q r w"
    and "\<And>g p w. gu_Approval g = Some p \<Longrightarrow> frozen p = frozen pa \<Longrightarrow> known w pa \<Longrightarrow> Q (Inr g) w"
  shows "safe Q (Guard_consume e req now pa) w"
proof -
  have won: "safe Q (record_event e q act actor name ip outcome detail
      (Ret (Inr \<lparr>gu_Allowed = True, gu_Approval = Some q, gu_Reason = reason, gu_Created = False\<rparr>))) w'"
    if "later w w'" "frozen q = frozen pa" for w' q act actor name ip outcome detail reason
  proof (rule safe_record [OF later_Inv [OF that(1)]])
    fix w''
    assume "later w' w''"
    then have "known w'' pa"
      using assms(1) that(1) known_later by blast
    then show "safe Q (Ret (Inr \<lparr>gu_Allowed = True, gu_Approval = Some q, gu_Reason = reason, gu_Created = False\<rparr>)) w''"
      using assms(4) that(2) by simp
  qed
  show ?thesis
    unfolding Guard_consume_def
    by (simp add: status_ok_close assms(3) won Let_def split: sum.split)
qed

lemma safe_Guard: "Inv w \<Longrightarrow> safe (\<lambda>r. result_ok sha256 (OGuard eng req r)) (Guard sha256 eng req) w"
proof (cases "\<exists>e. eng = Some e \<and> Guarded (en_pol e) (gr_Class req)")
  case True
  then obtain e where e: "eng = Some e" "Guarded (en_pol e) (gr_Class req)"
    by blast
  let ?Q = "\<lambda>r. result_ok sha256 (OGuard eng req r)"
  have blocked: "?Q r w" if "\<not> (\<exists>g. r = Inr g \<and> gu_Allowed g)" for r w
    using that e by (cases r) auto
  have create: "safe ?Q (Guard_create sha256 e req now) w" for now w
    by (rule safe_create [OF e(2) blocked])
  have consume: "safe ?Q (Guard_consume e req now pa) w"
    if "FindOpenApproval (GuardRequest_tenant req) (gr_Class req) (guard_fingerprint sha256 req) w = Some pa" "Inv w" for now pa w
  proof (rule safe_consume [OF FindOpen_known(1) [OF that(1)] that(2) blocked])
    fix g :: GuardResult and p :: PendingApproval and w
    assume g: "gu_Approval g = Some p" "frozen p = frozen pa" "known w pa"
    then obtain q where "q \<in> set (w_requests w)" "frozen q = frozen p"
      by (auto simp: known_def)
    with g FindOpen_known [OF that(1)] show "?Q (Inr g) w"
      by (auto simp: e frozen_def pinned_def intro!: bexI [of _ q])
  qed
  have retire: "safe ?Q (Guard_retire sha256 e req now pa r) w" if "Inv w" for now pa r w
    using that create unfolding Guard_retire_def
    by (auto intro!: safe_record safe_fire dest: later_Inv split: sum.split bool.split)
  have found: "safe ?Q (Guard_existing sha256 e req now pa) w"
    if "FindOpenApproval (GuardRequest_tenant req) (gr_Class req) (guard_fingerprint sha256 req) w = Some pa" "Inv w" for now pa w
  proof (cases "Expired pa now")
    case True
    have "\<forall>r w'. later w w' \<longrightarrow> safe ?Q (Guard_retire sha256 e req now pa r) w'"
      using retire later_Inv by blast
    then show ?thesis
      using True FindOpen_known(2) [OF that(1)] by (simp add: Guard_existing_def status_ok_close)
  next
    case False
    then show ?thesis
      using consume [OF that] create blocked by (simp add: Guard_existing_def)
  qed
  have "\<forall>t w'. later w w' \<longrightarrow> (\<forall>w''. later w' w'' \<longrightarrow>
      safe ?Q (case FindOpenApproval (GuardRequest_tenant req) (gr_Class req) (guard_fingerprint sha256 req) w'' of
        None \<Rightarrow> Guard_create sha256 e req t | Some pa \<Rightarrow> Guard_existing sha256 e req t pa) w'')"
    using found create later_Inv by (auto split: option.split)
  then show "safe ?Q (Guard sha256 eng req) w"
    unfolding Guard_def using e(2) by (simp add: e(1) Let_def)
next
  case False
  then show ?thesis
    by (cases eng) (auto simp: Guard_def)
qed

abbreviation any_result :: "'r \<Rightarrow> World \<Rightarrow> bool" where
  "any_result \<equiv> \<lambda>_ _. True"

lemma safe_expire:
  assumes "pa_Status pa \<in> {StatusPending, StatusApproved}" "\<And>w. Inv w \<Longrightarrow> safe Q k w"
  shows "safe Q (expire e pa actor name ip k) w"
  unfolding expire_def using assms
  by (auto simp: status_ok_close intro!: safe_record safe_fire dest: later_Inv split: sum.split bool.split)

lemma safe_finish: "Inv w \<Longrightarrow> safe any_result (Approve_finish e i pa approver name ip detail) w"
  unfolding Approve_finish_def by (rule safe_record) (simp_all add: safe_load_result)

lemma safe_count:
  assumes "known w pa" "pa_ID pa = i" "Inv w"
  shows "safe any_result (Approve_count e i pa approver name ip now (Inr (CountApprovalDecisions i DecisionApprove w))) w"
  using assms known_approved [OF assms(1,2)]
  by (auto simp: Approve_count_def Let_def safe_finish dest: later_Inv split: sum.split)

lemma safe_vote:
  assumes "known w pa" "pa_ID pa = i"
  shows "safe any_result (Approve_vote e i pa approver name ip now r) w"
  using assms safe_count known_later later_Inv
  by (auto simp: Approve_vote_def split: sum.split) (simp add: Approve_count_def)

lemma safe_Approve: "safe any_result (Approve e i approver name comment ip) w"
  unfolding Approve_def
proof (rule safe_load)
  fix pa w1
  assume pa: "known w1 pa" "pa_ID pa = i"
  have vote: "safe any_result (CallAddDecision \<lparr>ad_ID = 0, ad_ApprovalID = i, ad_Approver = approver, ad_ApproverName = name,
      ad_Decision = DecisionApprove, ad_Comment = comment, ad_CreatedAt = now\<rparr> (Approve_vote e i pa approver name ip now)) w2"
    if "known w2 pa" "approver \<noteq> pa_RequestedBy pa" for now w2
    using that pa(2) known_decision [OF that(1)] safe_vote known_later by simp
  show "safe any_result (CallNow (\<lambda>now.
         if pa_Status pa \<noteq> StatusPending then Ret (Inl (StateError (pa_Status pa)))
         else if Expired pa now then expire e pa approver name ip (Ret (Inl ErrExpired))
         else if approver = pa_RequestedBy pa then
           record_event e pa ActionApprovalApprove approver name ip ''denied'' ''self-approval denied''
             (Ret (Inl ErrSelfApproval))
         else
           CallAddDecision \<lparr>ad_ID = 0, ad_ApprovalID = i, ad_Approver = approver, ad_ApproverName = name,
               ad_Decision = DecisionApprove, ad_Comment = comment, ad_CreatedAt = now\<rparr>
             (Approve_vote e i pa approver name ip now))) w1"
    unfolding safe.simps(2)
  proof (intro allI impI)
    fix now w2
    assume "later w1 w2"
    then have "known w2 pa" "Inv w2"
      using pa(1) known_later later_Inv by blast+
    then show "safe any_result (if pa_Status pa \<noteq> StatusPending then Ret (Inl (StateError (pa_Status pa)))
         else if Expired pa now then expire e pa approver name ip (Ret (Inl ErrExpired))
         else if approver = pa_RequestedBy pa then
           record_event e pa ActionApprovalApprove approver name ip ''denied'' ''self-approval denied''
             (Ret (Inl ErrSelfApproval))
         else
           CallAddDecision \<lparr>ad_ID = 0, ad_ApprovalID = i, ad_Approver = approver, ad_ApproverName = name,
               ad_Decision = DecisionApprove, ad_Comment = comment, ad_CreatedAt = now\<rparr>
             (Approve_vote e i pa approver name ip now)) w2"
      using vote by (auto intro!: safe_record safe_expire simp del: safe.simps(11))
  qed
qed simp

lemma safe_Claim: "safe any_result (Claim e i actor name ip) w"
  unfolding Claim_def
  by (rule safe_load) (auto simp: status_ok_close Let_def intro!: safe_record safe_load dest: later_Inv split: sum.split)

lemma safe_Reject: "safe any_result (Reject e i approver name comment ip) w"
  unfolding Reject_def
proof (rule safe_load)
  fix pa w1
  assume pa: "known w1 pa" "pa_ID pa = i"
  have vote: "decision_ok w2 \<lparr>ad_ID = 0, ad_ApprovalID = i, ad_Approver = approver, ad_ApproverName = name,
      ad_Decision = DecisionReject, ad_Comment = comment, ad_CreatedAt = now\<rparr>" if "later w1 w2" for now w2
    using that pa known_later [OF pa(1) that] by (intro known_reject) simp_all
  show "safe any_result (CallNow (\<lambda>now.
         if pa_Status pa \<noteq> StatusPending then Ret (Inl (StateError (pa_Status pa)))
         else if Expired pa now then expire e pa approver name ip (Ret (Inl ErrExpired))
         else
           CallAddDecision \<lparr>ad_ID = 0, ad_ApprovalID = i, ad_Approver = approver, ad_ApproverName = name,
               ad_Decision = DecisionReject, ad_Comment = comment, ad_CreatedAt = now\<rparr> (\<lambda>_.
             CallSetStatus i StatusPending StatusRejected now (\<lambda>r. case r of
               Inl err \<Rightarrow> Ret (Inl (StoreError ''approval: marking rejected: '' err))
             | Inr rejected \<Rightarrow>
                 let detail = (if comment \<noteq> '''' then ''rejected: '' @ comment else ''rejected'') in
                 record_event e pa ActionApprovalReject approver name ip ''success'' detail
                   (if rejected then fireTerminal e pa OutcomeDenied (load_result i) else load_result i))))) w1"
    using vote by (auto simp: status_ok_close Let_def
        intro!: safe_expire safe_record safe_fire safe_load_result dest: later_Inv split: sum.split)
qed simp

lemma safe_sweep:
  assumes "\<forall>pa\<in>set ps. pa_Status pa \<in> {StatusPending, StatusApproved}" "Inv w"
  shows "safe any_result (sweepLoop e now ps n) w"
  using assms
proof (induction ps arbitrary: n w)
  case (Cons pa ps)
  have rest: "safe any_result (sweepLoop e now ps m) w'" if "Inv w'" for m w'
    using Cons that by simp
  show ?case
    using Cons.prems rest
    by (auto simp: status_ok_close intro!: safe_record safe_fire dest: later_Inv split: option.split sum.split bool.split)
qed simp

lemma safe_Sweep: "safe any_result (SweepExpired eng) w"
  using Expirable_open safe_sweep
  by (auto simp: SweepExpired_def dest: later_Inv split: option.split sum.split)

lemma result_ok_any:
  "(\<lambda>r. result_ok sha256 (ODecide r)) = any_result" "(\<lambda>r. result_ok sha256 (OClaim i r)) = any_result"
  "(\<lambda>r. result_ok sha256 (OSweep r)) = any_result"
  by (intro ext, simp)+

lemma safe_start: "Inv w \<Longrightarrow> safe (result_ok sha256) (start sha256 c) w"
  by (cases c) (simp_all add: safe_map result_ok_any safe_Guard safe_Approve safe_Reject safe_Claim safe_Sweep safe_load_result
      RecordResult_def Engine_Get_def Engine_List_def split: option.split sum.split)

section \<open>Who may act\<close>

text \<open>A program only ends in an authorizing outcome after it has moved that request to executed itself.\<close>

primrec entitled :: "('r \<Rightarrow> string \<Rightarrow> bool) \<Rightarrow> 'r prog \<Rightarrow> string list \<Rightarrow> bool" where
  "entitled A (Ret r) = (\<lambda>held. \<forall>i. A r i \<longrightarrow> i \<in> set held)"
| "entitled A (CallNow k) = (\<lambda>held. \<forall>t. entitled A (k t) held)"
| "entitled A (CallNewID k) = (\<lambda>held. \<forall>i. entitled A (k i) held)"
| "entitled A (CallCancelled k) = (\<lambda>held. \<forall>r. entitled A (k r) held)"
| "entitled A (CallAudit e k) = (\<lambda>held. entitled A k held)"
| "entitled A (CallTerminal pa outcome k) = (\<lambda>held. entitled A k held)"
| "entitled A (CallCreate pa k) = (\<lambda>held. \<forall>r. entitled A (k r) held)"
| "entitled A (CallGet i k) = (\<lambda>held. \<forall>r. entitled A (k r) held)"
| "entitled A (CallFindOpen t cls fp k) = (\<lambda>held. \<forall>r. entitled A (k r) held)"
| "entitled A (CallList t s cls n k) = (\<lambda>held. \<forall>r. entitled A (k r) held)"
| "entitled A (CallAddDecision d k) = (\<lambda>held. \<forall>r. entitled A (k r) held)"
| "entitled A (CallCount i d k) = (\<lambda>held. \<forall>r. entitled A (k r) held)"
| "entitled A (CallSetStatus i from to at k) =
     (\<lambda>held. (\<forall>err. entitled A (k (Inl err)) held) \<and> entitled A (k (Inr False)) held \<and>
        entitled A (k (Inr True)) (held @ (if to = StatusExecuted then [i] else [])))"
| "entitled A (CallSetResult i outcome k) = (\<lambda>held. \<forall>r. entitled A (k r) held)"
| "entitled A (CallListExpirable now k) = (\<lambda>held. \<forall>r. entitled A (k r) held)"

lemma entitled_map: "entitled A (map_prog f p) = entitled (\<lambda>r. A (f r)) p"
  by (induction p) simp_all

lemma entitled_none: "(\<And>r i. \<not> A r i) \<Longrightarrow> entitled A p held"
  by (induction p arbitrary: held) simp_all

lemma entitled_record [simp]: "entitled A (record_event e pa act actor name ip out d k) held = entitled A k held"
  by (simp add: record_event_def)

lemma entitled_fire [simp]: "entitled A (fireTerminal e pa out k) held = entitled A k held"
  by (simp add: fireTerminal_def)

lemma entitled_load:
  "entitled A (load i fail k) held \<longleftrightarrow> (\<forall>err. entitled A (fail (StoreError ''approval: loading request: '' err)) held) \<and>
     entitled A (fail ErrNotFound) held \<and> (\<forall>pa. entitled A (k pa) held)"
  by (auto simp: load_def split: sum.split option.split)

lemma entitled_Guard: "entitled (\<lambda>r. authorized (OGuard eng req r)) (Guard sha256 eng req) []"
  by (auto simp: Guard_def Guard_existing_def Guard_retire_def Guard_create_def Guard_consume_def Let_def
      split: option.split sum.split bool.split)

lemma entitled_Claim: "entitled (\<lambda>r. authorized (OClaim i r)) (Claim e i actor name ip) []"
  by (auto simp: Claim_def entitled_load Let_def split: sum.split)

lemma entitled_start: "entitled authorized (start sha256 c) []"
  by (cases c) (simp_all add: entitled_map entitled_Guard entitled_Claim entitled_none)

lemma step_entitled: "entitled A p held \<Longrightarrow> step c w p = (w', won, p') \<Longrightarrow> entitled A p' (held @ won)"
proof (cases p)
  case (CallSetStatus i s t at k)
  assume "entitled A p held" "step c w p = (w', won, p')"
  with CallSetStatus show ?thesis
    by (cases "fst (SetApprovalStatus i s t at w)")
      (auto simp: answer_def Let_def split_beta split: option.splits if_splits)
qed (auto simp: answer_def Let_def split_beta split: option.splits if_splits)

lemma step_gives: "step c w p = (w', won, p') \<Longrightarrow> mset (w_executions w) + mset won \<subseteq># mset (w_executions w')"
  by (cases p) (auto simp: written_def Let_def split_beta CreatePendingApproval_alt AddApprovalDecision_def
      SetApprovalStatus_def SetApprovalResult_def)

interpretation rg: rely_guarantee step Inv later "safe (result_ok sha256)" "\<lambda>held p. entitled authorized p held" w_executions
  for sha256
proof
  show "later w w" if "Inv w" for w
    using that by (rule later_refl)
  show "later w w''" if "later w w'" "later w' w''" for w w' w''
    using that by (rule later_trans)
  show "safe (result_ok sha256) p w'" if "safe (result_ok sha256) p w" "later w w'" for p w w'
    using safe_later [OF result_ok_later that] .
  show "Inv w' \<and> later w w' \<and> safe (result_ok sha256) p' w'"
    if "Inv w" "safe (result_ok sha256) p w" "step c w p = (w', won, p')" for w p c w' won p'
    using step_keeps [OF that] by (simp add: later_def)
  show "distinct (w_executions w)" if "Inv w" for w
    using that by (simp add: Inv_def)
qed (simp_all add: step_gives step_entitled)

definition empty_world :: World where
  "empty_world = \<lparr>w_requests = [], w_decisions = [], w_events = [], w_terminal = [], w_executions = []\<rparr>"

lemma Inv_empty: "Inv empty_world" "w_executions empty_world = []"
  by (simp_all add: Inv_def empty_world_def)

abbreviation server :: "hash_fn \<Rightarrow> World \<Rightarrow> (string list \<times> outcome prog) list \<Rightarrow> bool" where
  "server sha256 \<equiv> pool step (range (start sha256)) empty_world"

lemma server_ok:
  assumes "server sha256 w ts"
  shows "Inv w" "list_all (\<lambda>(held, p). safe (result_ok sha256) p w \<and> entitled authorized p held) ts"
    "mset (concat (map fst ts)) \<subseteq># mset (w_executions w)"
  using rg.pool_ok [OF assms Inv_empty] safe_start entitled_start by (blast elim!: rangeE)+

text \<open>The approvers of a request, each once.\<close>

definition approvers :: "World \<Rightarrow> string \<Rightarrow> string list" where
  "approvers w i = map ad_Approver (filter (\<lambda>d. ad_ApprovalID d = i \<and> ad_Decision d = DecisionApprove) (w_decisions w))"

definition four_eyes :: "World \<Rightarrow> PendingApproval \<Rightarrow> bool" where
  "four_eyes w p \<longleftrightarrow> pa_RequiredApprovals p \<ge> 1 \<and> distinct (approvers w (pa_ID p)) \<and>
     pa_RequiredApprovals p \<le> int (length (approvers w (pa_ID p))) \<and> pa_RequestedBy p \<notin> set (approvers w (pa_ID p))"

lemma Inv_four_eyes:
  assumes "Inv w" "p \<in> set (w_requests w)" "pa_Status p \<in> {StatusApproved, StatusExecuted}"
  shows "four_eyes w p"
proof -
  let ?ds = "filter (\<lambda>d. ad_ApprovalID d = pa_ID p \<and> ad_Decision d = DecisionApprove) (w_decisions w)"
  have "distinct (map (\<lambda>d. (ad_ApprovalID d, ad_Approver d)) ?ds)"
    using assms(1) by (simp add: Inv_def distinct_map_filter)
  moreover have "map (\<lambda>d. (ad_ApprovalID d, ad_Approver d)) ?ds = map (\<lambda>x. (pa_ID p, x)) (map ad_Approver ?ds)"
    by (simp add: comp_def)
  ultimately have "distinct (map ad_Approver ?ds)"
    by (metis distinct_map)
  moreover have "pa_RequestedBy p \<notin> set (map ad_Approver ?ds)"
  proof
    assume "pa_RequestedBy p \<in> set (map ad_Approver ?ds)"
    then obtain d where d: "d \<in> set (w_decisions w)" "ad_ApprovalID d = pa_ID p" "ad_Decision d = DecisionApprove"
      "ad_Approver d = pa_RequestedBy p"
      by auto
    then obtain q where "q \<in> set (w_requests w)" "pa_ID q = pa_ID p" "pa_RequestedBy p \<noteq> pa_RequestedBy q"
      using assms(1) unfolding Inv_def by fastforce
    then show False
      using assms(1,2) by (auto simp: Inv_def distinct_map inj_on_def)
  qed
  moreover have "1 \<le> pa_RequiredApprovals p" "pa_RequiredApprovals p \<le> int (length ?ds)"
    using assms by (auto simp: Inv_def approved_enough_def CountApprovalDecisions_def)
  ultimately show ?thesis
    by (simp add: four_eyes_def approvers_def)
qed

lemma held_executed:
  assumes "server sha256 w ts" "(held, p) \<in> set ts" "i \<in> set held"
  shows "\<exists>q\<in>set (w_requests w). pa_ID q = i \<and> pa_Status q = StatusExecuted"
proof -
  have "i \<in> set (concat (map fst ts))"
    using assms(2,3) by force
  then have "i \<in> set (w_executions w)"
    using server_ok(3) [OF assms(1)] by (metis mset_subset_eqD set_mset_mset)
  then show ?thesis
    using server_ok(1) [OF assms(1)] by (auto simp: Inv_def)
qed

text \<open>
  C1. Four eyes under concurrency: however the calls of any number of requesters,
  approvers, completers and sweepers interleave, whichever calls of the store fail (with
  or without effect) and whatever policies are in force, the gate lets a guarded
  operation pass only on a recorded request for exactly that tenant, class and
  fingerprint, which has been executed and carries the votes of at least the required
  number, and at least one, of different approvers, none of them the requester.
\<close>

theorem four_eyes_guard:
  assumes "server sha256 w ts" "(held, Ret (OGuard (Some e) req (Inr g))) \<in> set ts"
    and "Guarded (en_pol e) (gr_Class req)" "gu_Allowed g"
  shows "\<exists>p\<in>set (w_requests w). map_option pa_ID (gu_Approval g) = Some (pa_ID p) \<and> pa_Status p = StatusExecuted \<and>
    pinned sha256 req p \<and> four_eyes w p"
proof -
  have ok: "result_ok sha256 (OGuard (Some e) req (Inr g)) w" "entitled authorized (Ret (OGuard (Some e) req (Inr g))) held"
    using server_ok(2) [OF assms(1)] assms(2) by (auto simp: list_all_iff)
  then obtain pa p where p: "gu_Approval g = Some pa" "p \<in> set (w_requests w)" "pa_ID p = pa_ID pa" "pinned sha256 req p"
    using assms(3,4) by auto
  have "pa_ID pa \<in> set held"
    using ok(2) assms(4) p(1) by simp
  then obtain q where q: "q \<in> set (w_requests w)" "pa_ID q = pa_ID pa" "pa_Status q = StatusExecuted"
    using held_executed [OF assms(1,2)] by blast
  moreover have "q = p"
    using server_ok(1) [OF assms(1)] p q by (auto simp: Inv_def distinct_map inj_on_def)
  ultimately show ?thesis
    using p Inv_four_eyes [OF server_ok(1) [OF assms(1)] p(2)] by (intro bexI [of _ p]) simp_all
qed

text \<open>
  C2. An approved request authorizes at most one execution: of all calls, at the gate or
  of the completion path, that ended with the permission to run the operation of a given
  request, there is only one, in every interleaving; and that request is executed with
  the votes of enough different approvers other than its requester.
\<close>

theorem executed_once:
  assumes "server sha256 w ts" "i < length ts" "j < length ts"
    and "ts ! i = (held, Ret r)" "ts ! j = (held', Ret r')" "authorized r a" "authorized r' a"
  shows "i = j \<and> (\<exists>p\<in>set (w_requests w). pa_ID p = a \<and> pa_Status p = StatusExecuted \<and> four_eyes w p)"
proof
  have "list_all (\<lambda>(held, p). entitled authorized p held) ts"
    using server_ok(2) [OF assms(1)] by (auto simp: list_all_iff)
  then have held: "a \<in> set held" "a \<in> set held'"
    using assms(2-7) by (auto simp: list_all_length)
  show "i = j"
    by (rule rg.pool_exclusive [OF assms(1) Inv_empty _ _ assms(2,3), of sha256 a])
      (use held assms(4,5) safe_start entitled_start in auto)
  have "(held, Ret r) \<in> set ts"
    using assms(2,4) by (metis nth_mem)
  then show "\<exists>p\<in>set (w_requests w). pa_ID p = a \<and> pa_Status p = StatusExecuted \<and> four_eyes w p"
    using held_executed [OF assms(1) _ held(1)] Inv_four_eyes [OF server_ok(1) [OF assms(1)]] by fastforce
qed

section \<open>Sequential runs are interleavings\<close>

lemma exec_map_prog: "exec (map_prog f p) c w = (fst (exec p c w), f (snd (exec p c w)))"
  by (induction p arbitrary: w) simp_all

lemma pool_last:
  assumes "pool step S w0 w (ts @ [(held, p)])" "step c w p = (w', won, p')"
  shows "pool step S w0 w' (ts @ [(held @ won, p')])"
  using pool.act [OF assms(1) _ _ assms(2), of "length ts" held] by simp

lemma pool_exec:
  "pool step S w0 w (ts @ [(held, p)]) \<Longrightarrow>
     \<exists>held'. pool step S w0 (fst (exec p c w)) (ts @ [(held', Ret (snd (exec p c w)))])"
proof (induction p arbitrary: w held)
  case (Ret r)
  then show ?case by auto
next
  case (CallSetStatus i s t at k)
  obtain w' won p' where "step c w (CallSetStatus i s t at k) = (w', won, p')"
    by (metis prod_cases3)
  with pool_last [OF CallSetStatus.prems] CallSetStatus.IH show ?case
    by (force simp: Let_def split_beta)
qed (use pool_last in \<open>fastforce simp: Let_def split_beta\<close>)+

lemma server_call:
  assumes "server sha256 w ts"
  shows "\<exists>held. server sha256 (fst (exec (start sha256 a) c w)) (ts @ [(held, Ret (snd (exec (start sha256 a) c w)))])"
  by (rule pool_exec [OF pool.spawn [OF assms rangeI]])

lemma server_approve_all:
  assumes "server sha256 w ts"
  shows "\<exists>ts. server sha256 (approve_all e i name comment ip votes w) ts"
  using assms
proof (induction votes arbitrary: w ts)
  case Nil
  then show ?case by (auto simp: approve_all_def)
next
  case (Cons v votes)
  obtain a c where v: "v = (a, c)" by (cases v)
  have "\<exists>ts. server sha256 (fst (exec (Approve e i a name comment ip) c w)) ts"
    using server_call [OF Cons.prems, of "DoApprove e i a name comment ip" c] by (auto simp: exec_map_prog)
  with Cons.IH show ?case
    by (auto simp: v approve_all_def)
qed

lemma demo_server:
  "\<exists>w ts held g pa. server (\<lambda>_. []) w (ts @ [(held, Ret (OGuard (Some demo_engine) demo_request (Inr g)))]) \<and>
     gu_Allowed g \<and> gu_Approval g = Some pa \<and> pa_ID pa = ''apr_7''"
proof -
  have init: "server (\<lambda>_. []) demo_world []"
    using pool.init [of step "range (start (\<lambda>_. []))" empty_world] by (simp add: demo_world_def empty_world_def)
  have "\<exists>ts. server (\<lambda>_. []) demo_parked ts"
    using server_call [OF init, of "DoGuard (Some demo_engine) demo_request" "demo_choice 1"]
    by (auto simp: exec_map_prog demo_parked_def)
  then obtain ts where ts: "server (\<lambda>_. []) (approve_all demo_engine ''apr_7'' '''' '''' '''' demo_votes demo_parked) ts"
    using server_approve_all by blast
  obtain g pa where g: "snd (exec (Guard (\<lambda>_. []) (Some demo_engine) demo_request) (demo_choice 9)
      (approve_all demo_engine ''apr_7'' '''' '''' '''' demo_votes demo_parked)) = Inr g"
    "gu_Allowed g" "gu_Approval g = Some pa" "pa_ID pa = ''apr_7''"
    using demo_allowed by blast
  have "\<exists>w held. server (\<lambda>_. []) w (ts @ [(held, Ret (OGuard (Some demo_engine) demo_request (Inr g)))])"
    using server_call [OF ts, of "DoGuard (Some demo_engine) demo_request" "demo_choice 9"] g(1)
    by (auto simp: exec_map_prog)
  with g(2-4) show ?thesis
    by blast
qed

lemma demo_guarded: "Guarded (en_pol demo_engine) (gr_Class demo_request)"
  by (simp add: Guarded_def demo_engine_def Required_def)

theorem four_eyes_guard_witness:
  "\<exists>w p. p \<in> set (w_requests w) \<and> pa_ID p = ''apr_7'' \<and> pa_Status p = StatusExecuted \<and> pinned (\<lambda>_. []) demo_request p \<and> four_eyes w p"
proof -
  obtain w ts held g pa where run: "server (\<lambda>_. []) w (ts @ [(held, Ret (OGuard (Some demo_engine) demo_request (Inr g)))])"
    "gu_Allowed g" "gu_Approval g = Some pa" "pa_ID pa = ''apr_7''"
    using demo_server by blast
  have "(held, Ret (OGuard (Some demo_engine) demo_request (Inr g))) \<in>
      set (ts @ [(held, Ret (OGuard (Some demo_engine) demo_request (Inr g)))])"
    by simp
  from four_eyes_guard [OF run(1) this demo_guarded run(2)] run(3,4) show ?thesis
    by (auto dest: sym)
qed

theorem executed_once_witness:
  "\<exists>w p. p \<in> set (w_requests w) \<and> pa_ID p = ''apr_7'' \<and> pa_Status p = StatusExecuted \<and> four_eyes w p"
proof -
  obtain w ts held g pa where run: "server (\<lambda>_. []) w (ts @ [(held, Ret (OGuard (Some demo_engine) demo_request (Inr g)))])"
    "gu_Allowed g" "gu_Approval g = Some pa" "pa_ID pa = ''apr_7''"
    using demo_server by blast
  then have auth: "authorized (OGuard (Some demo_engine) demo_request (Inr g)) ''apr_7''"
    by simp
  show ?thesis
    using executed_once [OF run(1) _ _ _ _ auth auth, of "length ts" "length ts"] by auto
qed

end
