(* ===== verification/HSM_Log.thy ===== *)
theory HSM_Log
  imports Hash_Chain "HOL-Library.Char_ord" "HOL-Library.List_Lexorder"
begin

text \<open>
  The log of the hardware security module and its verification: command tables, the
  entry record and its digest (\<^verbatim>\<open>server/internal/hsm/yubihsm.go\<close>), the audit options
  (\<^verbatim>\<open>server/internal/hsmaudit/device.go\<close>), the continuity check
  (\<^verbatim>\<open>server/internal/hsmaudit/verify.go\<close>) and the check of the anchor
  (\<^verbatim>\<open>server/internal/hsmaudit/genesis.go\<close>).

  The device log interprets the hash-chain contract: every entry paired with the digest
  before it. Shown: what the continuity check accepts, including what it misses because
  two sixteen-bit counters are added with wrap-around; how entry numbers run; that the
  newest digest determines the whole log; and what the option check requires.
\<close>

section \<open>Commands and entries\<close>

definition CmdPutOption :: byte where "CmdPutOption = 0x4f"
definition CmdGenerateAsymmetricKey :: byte where "CmdGenerateAsymmetricKey = 0x46"
definition CmdSignECDSA :: byte where "CmdSignECDSA = 0x56"
definition CmdSignEdDSA :: byte where "CmdSignEdDSA = 0x6a"
definition CmdSignRSAPKCS1 :: byte where "CmdSignRSAPKCS1 = 0x47"
definition CmdSignRSAPSS :: byte where "CmdSignRSAPSS = 0x55"
definition CmdPutAuthKey :: byte where "CmdPutAuthKey = 0x44"
definition CmdChangeAuthKey :: byte where "CmdChangeAuthKey = 0x6c"
definition CmdDeleteObject :: byte where "CmdDeleteObject = 0x58"
definition CmdPutWrapKey :: byte where "CmdPutWrapKey = 0x4c"
definition CmdGenerateWrapKey :: byte where "CmdGenerateWrapKey = 0x5b"
definition CmdPutPubWrapKey :: byte where "CmdPutPubWrapKey = 0x73"
definition CmdExportRSAWrapped :: byte where "CmdExportRSAWrapped = 0x74"
definition CmdImportRSAWrapped :: byte where "CmdImportRSAWrapped = 0x75"
definition CmdExportRSAWrappedObj :: byte where "CmdExportRSAWrappedObj = 0x76"
definition CmdImportRSAWrappedObj :: byte where "CmdImportRSAWrappedObj = 0x77"
definition CmdExportWrapped :: byte where "CmdExportWrapped = 0x4a"
definition CmdImportWrapped :: byte where "CmdImportWrapped = 0x4b"

lemmas cmd_defs = CmdPutOption_def CmdGenerateAsymmetricKey_def CmdSignECDSA_def CmdSignEdDSA_def
  CmdSignRSAPKCS1_def CmdSignRSAPSS_def CmdPutAuthKey_def CmdChangeAuthKey_def CmdDeleteObject_def
  CmdPutWrapKey_def CmdGenerateWrapKey_def CmdPutPubWrapKey_def CmdExportRSAWrapped_def
  CmdImportRSAWrapped_def CmdExportRSAWrappedObj_def CmdImportRSAWrappedObj_def CmdExportWrapped_def
  CmdImportWrapped_def

definition CryptoCommands :: "byte \<rightharpoonup> string" where
  "CryptoCommands = map_of [(CmdGenerateAsymmetricKey, ''GENERATE ASYMMETRIC KEY''), (CmdSignECDSA, ''SIGN ECDSA''),
     (CmdSignEdDSA, ''SIGN EDDSA''), (CmdSignRSAPKCS1, ''SIGN RSA PKCS1''), (CmdSignRSAPSS, ''SIGN RSA PSS'')]"

definition SignCommands :: "byte \<rightharpoonup> string" where
  "SignCommands = map_of [(CmdSignECDSA, ''SIGN ECDSA''), (CmdSignEdDSA, ''SIGN EDDSA''),
     (CmdSignRSAPKCS1, ''SIGN RSA PKCS1''), (CmdSignRSAPSS, ''SIGN RSA PSS'')]"

definition AllCommands :: "byte \<rightharpoonup> string" where
  "AllCommands = map_of [
    (0xff, ''DEVICE INIT''), (0x00, ''BOOT''), (0x01, ''ECHO''), (0x03, ''CREATE SESSION''),
    (0x04, ''AUTHENTICATE SESSION''), (0x05, ''SESSION MESSAGE''), (0x06, ''GET DEVICE INFO''),
    (0x08, ''RESET DEVICE''), (0x0a, ''GET DEVICE PUBKEY''), (0x40, ''CLOSE SESSION''),
    (0x41, ''GET STORAGE INFO''), (0x42, ''PUT OPAQUE''), (0x43, ''GET OPAQUE''),
    (0x44, ''PUT AUTHENTICATION KEY''), (0x45, ''PUT ASYMMETRIC KEY''), (0x46, ''GENERATE ASYMMETRIC KEY''),
    (0x47, ''SIGN PKCS1''), (0x48, ''LIST OBJECTS''), (0x49, ''DECRYPT PKCS1''), (0x4a, ''EXPORT WRAPPED''),
    (0x4b, ''IMPORT WRAPPED''), (0x4c, ''PUT WRAP KEY''), (0x4d, ''GET LOG ENTRIES''),
    (0x4e, ''GET OBJECT INFO''), (0x4f, ''SET OPTION''), (0x50, ''GET OPTION''), (0x51, ''GET PSEUDO RANDOM''),
    (0x52, ''PUT HMAC KEY''), (0x53, ''SIGN HMAC''), (0x54, ''GET PUBLIC KEY''), (0x55, ''SIGN PSS''),
    (0x56, ''SIGN ECDSA''), (0x57, ''DERIVE ECDH''), (0x58, ''DELETE OBJECT''), (0x59, ''DECRYPT OAEP''),
    (0x5a, ''GENERATE HMAC KEY''), (0x5b, ''GENERATE WRAP KEY''), (0x5c, ''VERIFY HMAC''),
    (0x5d, ''SIGN SSH CERTIFICATE''), (0x5e, ''PUT TEMPLATE''), (0x5f, ''GET TEMPLATE''),
    (0x60, ''DECRYPT OTP''), (0x61, ''CREATE OTP AEAD''), (0x62, ''RANDOMIZE OTP AEAD''),
    (0x63, ''REWRAP OTP AEAD''), (0x64, ''SIGN ATTESTATION CERTIFICATE''), (0x65, ''PUT OTP AEAD KEY''),
    (0x66, ''GENERATE OTP AEAD KEY''), (0x67, ''SET LOG INDEX''), (0x68, ''WRAP DATA''), (0x69, ''UNWRAP DATA''),
    (0x6a, ''SIGN EDDSA''), (0x6b, ''BLINK DEVICE''), (0x6c, ''CHANGE AUTHENTICATION KEY''),
    (0x6d, ''PUT SYMMETRIC KEY''), (0x6e, ''GENERATE SYMMETRIC KEY''), (0x6f, ''DECRYPT ECB''),
    (0x70, ''ENCRYPT ECB''), (0x71, ''DECRYPT CBC''), (0x72, ''ENCRYPT CBC''), (0x73, ''PUT PUBLIC WRAPKEY''),
    (0x74, ''GET RSA WRAPPED KEY''), (0x75, ''PUT RSA WRAPPED KEY''), (0x76, ''EXPORT RSA WRAPPED''),
    (0x77, ''IMPORT RSA WRAPPED'')]"

record AuditLogEntry =
  al_Number :: u16
  al_Command :: byte
  al_Length :: u16
  al_SessionKey :: u16
  al_TargetKey :: u16
  al_SecondKey :: u16
  al_Result :: byte
  al_Tick :: u32
  al_Hash :: string

definition IsBootSentinel :: "AuditLogEntry \<Rightarrow> bool" where
  "IsBootSentinel e \<longleftrightarrow> al_Number e = 1 \<and> al_Command e = 0xff \<and> al_Length e = 0xffff \<and>
     al_SessionKey e = 0xffff \<and> al_TargetKey e = 0xffff \<and>
     al_SecondKey e = 0xffff \<and> al_Result e = 0xff \<and> al_Tick e = 0xffffffff"

datatype init_error = NoEntries | NotReset

definition CheckDeviceInitEntry :: "AuditLogEntry list \<Rightarrow> init_error option" where
  "CheckDeviceInitEntry entries =
     (case entries of
        [] \<Rightarrow> Some NoEntries
      | e # _ \<Rightarrow> if \<not> IsBootSentinel e then Some NotReset else None)"

definition EntryData :: "AuditLogEntry \<Rightarrow> byte list" where
  "EntryData e = be16 (al_Number e) @ [al_Command e] @ be16 (al_Length e) @ be16 (al_SessionKey e) @
     be16 (al_TargetKey e) @ be16 (al_SecondKey e) @ [al_Result e] @ be32 (al_Tick e)"

definition ComputeEntryHash :: "hash_fn \<Rightarrow> AuditLogEntry \<Rightarrow> byte list \<Rightarrow> string" where
  "ComputeEntryHash sha256 e prevHash = hex_encode (take 16 (sha256 (EntryData e @ prevHash)))"

text \<open>The per-entry results, and the position of an undecodable hash if the walk stopped early.\<close>

fun hashChainLoop :: "hash_fn \<Rightarrow> nat \<Rightarrow> AuditLogEntry \<Rightarrow> AuditLogEntry list \<Rightarrow> bool list \<times> nat option" where
  "hashChainLoop sha256 i p [] = ([], None)"
| "hashChainLoop sha256 i p (e # es) =
     (case hex_decode (al_Hash p) of
        None \<Rightarrow> (replicate (length (e # es)) False, Some i)
      | Some prevHash \<Rightarrow>
          let (rs, err) = hashChainLoop sha256 (i + 1) e es
          in ((ComputeEntryHash sha256 e prevHash = al_Hash e) # rs, err))"

definition VerifyHashChain :: "hash_fn \<Rightarrow> AuditLogEntry list \<Rightarrow> (unit, bool list \<times> nat option) result" where
  "VerifyHashChain sha256 entries =
     (case entries of
        [] \<Rightarrow> Inl ()
      | e # es \<Rightarrow> let (rs, err) = hashChainLoop sha256 0 e es in Inr (True # rs, err))"

section \<open>Audit options\<close>

record Unlogged =
  un_Boots :: u16
  un_Authentications :: u16

definition Unlogged_Any :: "Unlogged \<Rightarrow> bool" where
  "Unlogged_Any u \<longleftrightarrow> un_Boots u > 0 \<or> un_Authentications u > 0"

type_synonym AuditLevel = byte

definition AuditOff :: AuditLevel where "AuditOff = 0x00"
definition AuditOn :: AuditLevel where "AuditOn = 0x01"
definition AuditFixed :: AuditLevel where "AuditFixed = 0x02"

definition AuditLevel_String :: "AuditLevel \<Rightarrow> string" where
  "AuditLevel_String l =
     (if l = AuditOff then ''off'' else if l = AuditOn then ''on'' else if l = AuditFixed then ''fixed''
      else ''unknown(0x'' @ hex_encode [l] @ '')'')"

record Options =
  op_ForceAudit :: AuditLevel
  op_CommandAudit :: "byte \<rightharpoonup> AuditLevel"

definition BaselineForcedCommands :: "byte list" where
  "BaselineForcedCommands = [CmdSignECDSA, CmdSignEdDSA, CmdSignRSAPKCS1, CmdSignRSAPSS, 0x53, 0x5d, 0x64,
     CmdGenerateAsymmetricKey, 0x45, CmdPutAuthKey, CmdChangeAuthKey, CmdDeleteObject, CmdPutWrapKey,
     CmdGenerateWrapKey, CmdPutPubWrapKey, CmdExportWrapped, CmdImportWrapped, CmdExportRSAWrapped,
     CmdImportRSAWrapped, CmdExportRSAWrappedObj, CmdImportRSAWrappedObj, CmdPutOption]"

text \<open>The commands of the option map are visited in the order \<open>walk\<close>, which Go leaves open.\<close>

definition add_command :: "byte \<Rightarrow> byte list \<Rightarrow> byte list" where
  "add_command c out = (if c \<in> set out then out else out @ [c])"

definition RequiredForced :: "byte list \<Rightarrow> Options option \<Rightarrow> byte list" where
  "RequiredForced walk opts =
     (case opts of
        None \<Rightarrow> []
      | Some opts \<Rightarrow>
          let out = fold add_command BaselineForcedCommands [];
              out = fold (\<lambda>c out. if AllCommands c = None then add_command c out else out) walk out
          in sort out)"

definition command_name :: "byte \<Rightarrow> string" where
  "command_name c = (case AllCommands c of Some n \<Rightarrow> n | None \<Rightarrow> '''')"

definition undocumented :: string where
  "undocumented = ''UNDOCUMENTED COMMAND (not in this build's command table; cannot be shown to be incapable of signing or key export)''"

definition weak_text :: "byte \<Rightarrow> AuditLevel \<Rightarrow> string" where
  "weak_text c l = ''0x'' @ hex_encode [c] @ '' '' @
     (if command_name c = '''' then undocumented else command_name c) @ ''='' @ AuditLevel_String l"

definition weak_commands :: "byte list \<Rightarrow> Options \<Rightarrow> string list" where
  "weak_commands cmds opts = concat (map (\<lambda>c. case op_CommandAudit opts c of
       None \<Rightarrow> [] | Some l \<Rightarrow> if l \<noteq> AuditFixed then [weak_text c l] else []) cmds)"

definition Options_Verify :: "byte list \<Rightarrow> Options option \<Rightarrow> string option" where
  "Options_Verify walk opts =
     (case opts of
        None \<Rightarrow> Some ''device audit options unknown''
      | Some o' \<Rightarrow>
          let problems = (if op_ForceAudit o' \<noteq> AuditFixed
                then [''force-audit is '' @ AuditLevel_String (op_ForceAudit o') @
                      '', want fixed (the device must refuse operations rather than overwrite log entries)''] else []);
              missing = map (\<lambda>c. ''0x'' @ hex_encode [c] @ '' '' @ command_name c)
                (filter (\<lambda>c. op_CommandAudit o' c = None) BaselineForcedCommands);
              problems = (if missing \<noteq> []
                then problems @ [''device reports no audit setting for commands it must support: '' @
                      join_with '', '' (sort missing) @ '' (the options set is incomplete or was edited)''] else problems);
              weak = weak_commands (RequiredForced walk opts) o';
              problems = (if weak \<noteq> []
                then problems @ [''commands not force-audited: '' @ join_with '', '' (sort weak)] else problems)
          in if problems \<noteq> [] then Some (''device audit configuration is insufficient: '' @ join_with ''; '' problems)
             else None)"

definition ForceAuditEnabled :: "Options option \<Rightarrow> bool" where
  "ForceAuditEnabled opts \<longleftrightarrow> (case opts of None \<Rightarrow> False | Some o' \<Rightarrow> op_ForceAudit o' \<noteq> AuditOff)"

section \<open>Continuity of a log segment\<close>

definition DigestLen :: nat where "DigestLen = 16"

definition MaxLogEntries :: nat where "MaxLogEntries = 62"

record Tail =
  ta_Number :: u16
  ta_Digest :: string

definition nextNumber :: "u16 \<Rightarrow> u16" where
  "nextNumber n = (if n = 0xffff then 1 else n + 1)"

definition EntryDigest :: "hash_fn \<Rightarrow> AuditLogEntry \<Rightarrow> byte list \<Rightarrow> string" where
  "EntryDigest sha256 e prevDigest = ComputeEntryHash sha256 e prevDigest"

definition ProblemGap :: string where "ProblemGap = ''gap''"
definition ProblemDigest :: string where "ProblemDigest = ''digest_mismatch''"
definition ProblemRewind :: string where "ProblemRewind = ''rewind''"
definition ProblemGenesis :: string where "ProblemGenesis = ''genesis''"
definition ProblemUnknownCommand :: string where "ProblemUnknownCommand = ''unknown_command''"
definition ProblemUnloggedOps :: string where "ProblemUnloggedOps = ''unlogged_operations''"

datatype digest_error = NotHex | WrongLength nat

text \<open>The explanation of a problem: which message, with its arguments.\<close>

datatype detail =
    UnloggedReport u16 u16
  | NotASentinel
  | TailUnusable digest_error
  | NeverCollected u16 u16 u16
  | WentBackwards u16 u16
  | RecordAltered string string
  | UnknownCommand byte
  | DigestUnusable digest_error

record Problem =
  pr_Number :: u16
  pr_Kind :: string
  pr_Detail :: detail

record SegmentResult =
  sr_OK :: bool
  sr_Count :: nat
  sr_First :: u16
  sr_Last :: u16
  sr_Tail :: Tail
  sr_Problems :: "Problem list"

definition SegmentResult_Err :: "SegmentResult \<Rightarrow> Problem list option" where
  "SegmentResult_Err r = (if sr_OK r then None else Some (sr_Problems r))"

definition isForward :: "u16 \<Rightarrow> u16 \<Rightarrow> bool" where
  "isForward want got \<longleftrightarrow> got - want < 0x8000"

definition gapSize :: "u16 \<Rightarrow> u16 \<Rightarrow> u16" where
  "gapSize want got = got - want"

definition decodeDigest :: "string \<Rightarrow> (digest_error, byte list) result" where
  "decodeDigest s =
     (case hex_decode (to_lower (trim_space s)) of
        None \<Rightarrow> Inl NotHex
      | Some b \<Rightarrow> if length b \<noteq> DigestLen then Inl (WrongLength (length b)) else Inr b)"

definition add_problem :: "u16 \<Rightarrow> string \<Rightarrow> detail \<Rightarrow> SegmentResult \<Rightarrow> SegmentResult" where
  "add_problem n kind d res =
     res\<lparr>sr_OK := False, sr_Problems := sr_Problems res @ [\<lparr>pr_Number = n, pr_Kind = kind, pr_Detail = d\<rparr>]\<rparr>"

definition number_problem :: "u16 \<Rightarrow> AuditLogEntry \<Rightarrow> SegmentResult \<Rightarrow> SegmentResult" where
  "number_problem want e res =
     (if \<not> isForward want (al_Number e)
      then add_problem (al_Number e) ProblemRewind (WentBackwards want (al_Number e)) res
      else add_problem (al_Number e) ProblemGap (NeverCollected want (al_Number e) (gapSize want (al_Number e))) res)"

definition digest_check :: "hash_fn \<Rightarrow> byte list option \<Rightarrow> AuditLogEntry \<Rightarrow> SegmentResult \<Rightarrow> SegmentResult" where
  "digest_check sha256 prevDigest e res =
     (case prevDigest of
        None \<Rightarrow> res
      | Some d \<Rightarrow>
          let want = EntryDigest sha256 e d in
          if \<not> equal_fold want (al_Hash e)
          then add_problem (al_Number e) ProblemDigest (RecordAltered (to_lower (al_Hash e)) want) res
          else res)"

fun segmentLoop ::
  "hash_fn \<Rightarrow> u16 \<Rightarrow> byte list option \<Rightarrow> AuditLogEntry list \<Rightarrow> SegmentResult \<Rightarrow> SegmentResult" where
  "segmentLoop sha256 wantNumber prevDigest [] res = res"
| "segmentLoop sha256 wantNumber prevDigest (e # es) res =
     (let skipped = al_Number e \<noteq> wantNumber;
          res = (if skipped then number_problem wantNumber e res else res);
          prevDigest = (if skipped then None else prevDigest);
          res = digest_check sha256 prevDigest e res;
          res = (if AllCommands (al_Command e) = None
                 then add_problem (al_Number e) ProblemUnknownCommand (UnknownCommand (al_Command e)) res else res)
      in case decodeDigest (al_Hash e) of
           Inl err \<Rightarrow>
             segmentLoop sha256 (nextNumber (al_Number e)) None es
               (add_problem (al_Number e) ProblemDigest (DigestUnusable err) res)
         | Inr d \<Rightarrow> segmentLoop sha256 (nextNumber (al_Number e)) (Some d) es res)"

definition close_segment :: "AuditLogEntry list \<Rightarrow> SegmentResult \<Rightarrow> SegmentResult" where
  "close_segment entries res =
     res\<lparr>sr_Tail := \<lparr>ta_Number = al_Number (last entries), ta_Digest = to_lower (al_Hash (last entries))\<rparr>\<rparr>"

definition VerifySegment ::
  "hash_fn \<Rightarrow> AuditLogEntry list \<Rightarrow> Tail option \<Rightarrow> Unlogged \<Rightarrow> SegmentResult" where
  "VerifySegment sha256 entries prev unlogged =
     (let res = \<lparr>sr_OK = True, sr_Count = length entries, sr_First = 0, sr_Last = 0,
            sr_Tail = (case prev of None \<Rightarrow> \<lparr>ta_Number = 0, ta_Digest = ''''\<rparr> | Some t \<Rightarrow> t), sr_Problems = []\<rparr>;
          n = un_Boots unlogged + un_Authentications unlogged;
          res = (if n > 0
                 then add_problem 0 ProblemUnloggedOps (UnloggedReport (un_Boots unlogged) (un_Authentications unlogged)) res
                 else res)
      in if entries = [] then res
         else
           let res = res\<lparr>sr_First := al_Number (hd entries), sr_Last := al_Number (last entries)\<rparr> in
           case prev of
             None \<Rightarrow>
               let res = (if \<not> IsBootSentinel (hd entries)
                          then add_problem (al_Number (hd entries)) ProblemGenesis NotASentinel res else res)
               in close_segment entries (segmentLoop sha256 (al_Number (hd entries)) None entries res)
           | Some t \<Rightarrow>
               (case decodeDigest (ta_Digest t) of
                  Inl err \<Rightarrow> add_problem 0 ProblemDigest (TailUnusable err) res
                | Inr d \<Rightarrow>
                    close_segment entries (segmentLoop sha256 (nextNumber (ta_Number t)) (Some d) entries res)))"

definition VerifyChainFromGenesis :: "hash_fn \<Rightarrow> AuditLogEntry list \<Rightarrow> Unlogged \<Rightarrow> SegmentResult" where
  "VerifyChainFromGenesis sha256 entries unlogged = VerifySegment sha256 entries None unlogged"

section \<open>The anchor\<close>

definition SentinelPreimageHex :: string where
  "SentinelPreimageHex = ''0001ffffffffffffffffffffffffffff''"

definition Sentinel :: AuditLogEntry where
  "Sentinel = \<lparr>al_Number = 1, al_Command = 0xff, al_Length = 0xffff, al_SessionKey = 0xffff,
     al_TargetKey = 0xffff, al_SecondKey = 0xffff, al_Result = 0xff, al_Tick = 0xffffffff, al_Hash = ''''\<rparr>"

definition SentinelPreimage :: "byte list" where
  "SentinelPreimage = EntryData Sentinel"

fun serialLoop :: "string \<Rightarrow> 64 word \<Rightarrow> 64 word" where
  "serialLoop [] n = n"
| "serialLoop (r # s) n =
     (if (of_char r :: nat) < 48 \<or> 57 < (of_char r :: nat) then 0
      else serialLoop s (n * 10 + (of_char r - 48)))"

definition parseSerial :: "string \<Rightarrow> 64 word" where
  "parseSerial s = (let s = trim_space s in if s = '''' then 0 else serialLoop s 0)"

definition CandidateSeeds :: "hash_fn \<Rightarrow> string \<Rightarrow> (string \<times> byte list) list" where
  "CandidateSeeds sha256 serial =
     (let preimage = SentinelPreimage; sum = sha256 preimage; n = parseSerial serial; be = be64 n in
      [(''absent'', []), (''all-zero (16)'', replicate 16 0x00), (''all-ones (16)'', replicate 16 0xff),
       (''all-zero (32)'', replicate 32 0x00), (''all-ones (32)'', replicate 32 0xff),
       (''the sentinel preimage'', preimage), (''sha-256 of the preimage'', sum),
       (''sha-256 of the preimage, truncated'', take DigestLen sum)] @
      (if n \<noteq> 0 then [(''device serial (big-endian)'', be), (''device serial (32-bit big-endian)'', drop 4 be)] else []))"

definition DerivableAnchor :: "hash_fn \<Rightarrow> string \<Rightarrow> string \<Rightarrow> string" where
  "DerivableAnchor sha256 digest serial =
     (let digest = to_lower (trim_space digest) in
      if digest = '''' then ''''
      else
        let seeds = CandidateSeeds sha256 serial in
        case find (\<lambda>name. case map_of seeds name of
            Some seed \<Rightarrow> equal_fold (ComputeEntryHash sha256 Sentinel seed) digest | None \<Rightarrow> False) (sort (map fst seeds)) of
          Some name \<Rightarrow> name | None \<Rightarrow> '''')"

section \<open>What the continuity check accepts\<close>

definition decodable :: "AuditLogEntry \<Rightarrow> bool" where
  "decodable e \<longleftrightarrow> (case decodeDigest (al_Hash e) of Inl _ \<Rightarrow> False | Inr _ \<Rightarrow> True)"

definition digest_of :: "AuditLogEntry \<Rightarrow> byte list" where
  "digest_of e = (case decodeDigest (al_Hash e) of Inl _ \<Rightarrow> [] | Inr d \<Rightarrow> d)"

fun numbered :: "u16 \<Rightarrow> AuditLogEntry list \<Rightarrow> bool" where
  "numbered n [] \<longleftrightarrow> True"
| "numbered n (e # es) \<longleftrightarrow> al_Number e = n \<and> numbered (nextNumber n) es"

fun derived :: "hash_fn \<Rightarrow> byte list \<Rightarrow> AuditLogEntry list \<Rightarrow> bool" where
  "derived sha256 d [] \<longleftrightarrow> True"
| "derived sha256 d (e # es) \<longleftrightarrow>
     equal_fold (EntryDigest sha256 e d) (al_Hash e) \<and> decodable e \<and> derived sha256 (digest_of e) es"

definition known :: "AuditLogEntry list \<Rightarrow> bool" where
  "known es \<longleftrightarrow> list_all (\<lambda>e. AllCommands (al_Command e) \<noteq> None) es"

text \<open>A segment that continues a log whose newest entry has number \<open>n\<close> and digest \<open>d\<close>.\<close>

definition continues :: "hash_fn \<Rightarrow> u16 \<Rightarrow> byte list \<Rightarrow> AuditLogEntry list \<Rightarrow> bool" where
  "continues sha256 n d es \<longleftrightarrow> numbered (nextNumber n) es \<and> derived sha256 d es \<and> known es"

definition from_genesis :: "hash_fn \<Rightarrow> AuditLogEntry list \<Rightarrow> bool" where
  "from_genesis sha256 es \<longleftrightarrow> (case es of [] \<Rightarrow> True
     | e # es \<Rightarrow> IsBootSentinel e \<and> decodable e \<and> continues sha256 1 (digest_of e) es)"

lemma add_problem_simps [simp]:
  "\<not> sr_OK (add_problem n k d res)" "sr_Tail (add_problem n k d res) = sr_Tail res"
  by (simp_all add: add_problem_def)

lemma number_problem_simps [simp]:
  "\<not> sr_OK (number_problem n e res)" "sr_Tail (number_problem n e res) = sr_Tail res"
  by (simp_all add: number_problem_def)

lemma digest_check_OK [simp]:
  "sr_OK (digest_check sha256 None e res) = sr_OK res"
  "sr_OK (digest_check sha256 (Some d) e res) \<longleftrightarrow> sr_OK res \<and> equal_fold (EntryDigest sha256 e d) (al_Hash e)"
  by (auto simp: digest_check_def Let_def)

lemma digest_check_bad: "\<not> sr_OK res \<Longrightarrow> \<not> sr_OK (digest_check sha256 p e res)"
  by (cases p) simp_all

lemma segmentLoop_bad: "\<not> sr_OK res \<Longrightarrow> \<not> sr_OK (segmentLoop sha256 n p es res)"
  by (induction sha256 n p es res rule: segmentLoop.induct) (auto simp: Let_def digest_check_bad split: sum.split)

lemma segmentLoop_OK:
  "sr_OK (segmentLoop sha256 n (Some d) es res) \<longleftrightarrow> sr_OK res \<and> numbered n es \<and> derived sha256 d es \<and> known es"
proof (induction es arbitrary: n d res)
  case (Cons e es)
  show ?case
  proof (cases "al_Number e = n \<and> AllCommands (al_Command e) \<noteq> None")
    case True
    then show ?thesis
      by (auto simp: Let_def Cons.IH known_def decodable_def digest_of_def segmentLoop_bad split: sum.split)
  next
    case False
    then show ?thesis
      by (auto simp: Let_def known_def digest_check_bad segmentLoop_bad split: sum.split)
  qed
qed (simp add: known_def)

lemma segmentLoop_first_OK:
  "al_Number e = n \<Longrightarrow> sr_OK (segmentLoop sha256 n None (e # es) res) \<longleftrightarrow>
     sr_OK res \<and> AllCommands (al_Command e) \<noteq> None \<and> decodable e \<and>
     continues sha256 (al_Number e) (digest_of e) es"
  by (auto simp: Let_def segmentLoop_OK continues_def decodable_def digest_of_def segmentLoop_bad split: sum.split)

lemma close_segment_OK [simp]: "sr_OK (close_segment es res) = sr_OK res"
  by (simp add: close_segment_def)

lemma AllCommands_sentinel: "AllCommands 0xff \<noteq> None"
  by (simp add: AllCommands_def)

lemma VerifySegment_genesis:
  "sr_OK (VerifySegment sha256 es None u) \<longleftrightarrow> un_Boots u + un_Authentications u = 0 \<and> from_genesis sha256 es"
proof (cases es)
  case (Cons e es')
  show ?thesis
  proof (cases "IsBootSentinel e")
    case True
    then have "al_Number e = 1" "AllCommands (al_Command e) \<noteq> None"
      by (simp_all add: IsBootSentinel_def AllCommands_sentinel)
    then show ?thesis
      using True by (simp add: VerifySegment_def Let_def Cons from_genesis_def segmentLoop_first_OK word_neq_0_conv [symmetric]
          del: segmentLoop.simps)
  next
    case False
    then show ?thesis
      by (simp add: VerifySegment_def Let_def Cons from_genesis_def segmentLoop_bad del: segmentLoop.simps)
  qed
qed (simp add: VerifySegment_def Let_def from_genesis_def word_neq_0_conv [symmetric])

lemma VerifySegment_tail:
  "sr_OK (VerifySegment sha256 es (Some t) u) \<longleftrightarrow> un_Boots u + un_Authentications u = 0 \<and>
     (es = [] \<or> (\<exists>d. decodeDigest (ta_Digest t) = Inr d \<and> continues sha256 (ta_Number t) d es))"
  by (auto simp: VerifySegment_def Let_def segmentLoop_OK continues_def word_neq_0_conv [symmetric] split: sum.split
      del: segmentLoop.simps)

text \<open>
  C29. The continuity check accepts a segment exactly when the two overflow counters the
  device reports add up to zero in sixteen bits, and the segment is empty or continues:
  from the stored tail, or, for the first collection, from a factory-reset entry; with
  consecutive numbers, re-derivable digests and known commands. An empty first segment
  is accepted without a factory-reset entry.
\<close>

theorem VerifySegment_iff:
  "sr_OK (VerifySegment sha256 es prev u) \<longleftrightarrow> un_Boots u + un_Authentications u = 0 \<and>
     (case prev of
        None \<Rightarrow> from_genesis sha256 es
      | Some t \<Rightarrow> es = [] \<or> (\<exists>d. decodeDigest (ta_Digest t) = Inr d \<and> continues sha256 (ta_Number t) d es))"
  by (cases prev) (simp_all add: VerifySegment_genesis VerifySegment_tail)

lemma mod_zero_below: "(s :: nat) < 131072 \<Longrightarrow> s mod 65536 = 0 \<longleftrightarrow> s = 0 \<or> s = 65536"
  by (auto elim!: dvdE simp: mod_eq_0_iff_dvd)

lemma u16_sum_zero: "(a :: u16) + b = 0 \<longleftrightarrow> a = 0 \<and> b = 0 \<or> unat a + unat b = 65536"
proof -
  have less: "unat a < 65536" "unat b < 65536"
    using unsigned_less [of a] unsigned_less [of b] by simp_all
  have "a + b = 0 \<longleftrightarrow> (unat a + unat b) mod 65536 = 0"
    by (simp add: unat_eq_iff [symmetric] unat_word_ariths)
  also have "\<dots> \<longleftrightarrow> unat a + unat b = 0 \<or> unat a + unat b = 65536"
    by (rule mod_zero_below) (use less in linarith)
  finally show ?thesis
    by (simp add: unat_eq_0)
qed

text \<open>
  C27. The counters of unrecorded operations are added in sixteen bits. A segment that is
  fine otherwise is refused when the device admits unrecorded operations, except when the
  two counters add up to exactly 65536: then it is accepted.
\<close>

theorem unlogged_wrap:
  "sr_OK (VerifySegment sha256 es prev u) \<longleftrightarrow>
     sr_OK (VerifySegment sha256 es prev \<lparr>un_Boots = 0, un_Authentications = 0\<rparr>) \<and>
     (if Unlogged_Any u then unat (un_Boots u) + unat (un_Authentications u) = 65536 else True)"
proof -
  have "Unlogged_Any u \<longleftrightarrow> \<not> (un_Boots u = 0 \<and> un_Authentications u = 0)"
    by (auto simp: Unlogged_Any_def word_neq_0_conv)
  then show ?thesis
    by (cases prev) (auto simp: VerifySegment_genesis VerifySegment_tail u16_sum_zero)
qed

section \<open>Entry numbers\<close>

lemma nextNumber_value:
  assumes "unat n = k mod 65535 + 1"
  shows "unat (nextNumber n) = Suc k mod 65535 + 1"
proof (cases "n = 0xffff")
  case True
  then have "k mod 65535 = 65534"
    using assms by simp
  then have "Suc k mod 65535 = 0"
    by (simp add: mod_Suc)
  with True show ?thesis by (simp add: nextNumber_def)
next
  case False
  then have "unat n \<noteq> unat (0xffff :: u16)"
    by (metis word_unat_eq_iff)
  then have "unat n \<noteq> 65535"
    by simp
  with assms have k: "k mod 65535 < 65534"
    using mod_less_divisor [of 65535 k] by linarith
  then have "Suc k mod 65535 = Suc (k mod 65535)"
    by (simp add: mod_Suc)
  moreover have "unat (n + 1) = unat n + 1"
    using assms k by (simp add: unat_word_ariths)
  ultimately show ?thesis
    using False assms by (simp add: nextNumber_def)
qed

lemma numbered_nth:
  assumes "numbered n es" "unat n = k mod 65535 + 1" "i < length es"
  shows "unat (al_Number (es ! i)) = (k + i) mod 65535 + 1"
  using assms
proof (induction es arbitrary: n k i)
  case (Cons e es)
  show ?case
  proof (cases i)
    case 0
    with Cons.prems show ?thesis by simp
  next
    case (Suc j)
    have "unat (al_Number (es ! j)) = (Suc k + j) mod 65535 + 1"
      using Cons.prems Suc nextNumber_value [OF Cons.prems(2)] by (intro Cons.IH) simp_all
    with Suc show ?thesis by simp
  qed
qed simp

lemma genesis_numbered: "from_genesis sha256 es \<Longrightarrow> numbered 1 es"
  by (cases es) (simp_all add: from_genesis_def continues_def IsBootSentinel_def)

text \<open>
  In a log accepted from the factory reset on, the entry at position i (from 0) has the
  number i mod 65535 + 1: numbers run from 1 to 65535, wrap to 1, and 0 never occurs.
\<close>

theorem genesis_numbers:
  assumes "sr_OK (VerifyChainFromGenesis sha256 es u)" "i < length es"
  shows "unat (al_Number (es ! i)) = i mod 65535 + 1"
  using assms genesis_numbered [of sha256 es] numbered_nth [of 1 es 0 i]
  by (simp add: VerifyChainFromGenesis_def VerifySegment_genesis)

section \<open>The newest digest determines the log\<close>

lemma EntryData_inj:
  assumes "EntryData e @ d = EntryData f @ d'"
  shows "e\<lparr>al_Hash := ''''\<rparr> = f\<lparr>al_Hash := ''''\<rparr> \<and> d = d'"
  using assms by (simp add: EntryData_def)

lemma is_space_lower [simp]: "is_space (lower_char c) = is_space c"
  by (auto simp: is_space_def lower_char_def Let_def)

lemma dropWhile_lower: "dropWhile is_space (map lower_char s) = map lower_char (dropWhile is_space s)"
  by (induction s) auto

lemma to_lower_trim: "to_lower (trim_space s) = trim_space (to_lower s)"
  by (simp add: to_lower_def trim_space_def dropWhile_lower rev_map)

lemma decodeDigest_fold: "equal_fold s t \<Longrightarrow> decodeDigest s = decodeDigest t"
  by (simp add: decodeDigest_def to_lower_trim equal_fold_def)

lemma hex_digit_no_space: "n < 16 \<Longrightarrow> \<not> is_space (hex_digit n)"
  by (simp add: is_space_def hex_digit_def Let_def)

lemma hex_encode_no_space: "\<forall>c\<in>set (hex_encode bs). \<not> is_space c"
  by (induction bs) (simp_all add: hex_digit_no_space)

lemma decodeDigest_hex: "decodeDigest (hex_encode b) = (if length b \<noteq> 16 then Inl (WrongLength (length b)) else Inr b)"
  using trim_space_no_space [OF hex_encode_no_space] by (simp add: decodeDigest_def DigestLen_def)

lemma digest_of_length: "decodable e \<Longrightarrow> length (digest_of e) = 16"
  by (auto simp: decodable_def digest_of_def decodeDigest_def DigestLen_def split: sum.splits option.splits if_splits)

definition truncated :: "hash_fn \<Rightarrow> hash_fn" where
  "truncated sha256 x = take 16 (sha256 x)"

lemma digest_of_derived:
  assumes "equal_fold (EntryDigest sha256 e d) (al_Hash e)" "decodable e"
  shows "digest_of e = truncated sha256 (EntryData e @ d)"
proof -
  have "decodeDigest (al_Hash e) = decodeDigest (EntryDigest sha256 e d)"
    using decodeDigest_fold [OF assms(1)] by simp
  then show ?thesis
    using assms(2)
    by (auto simp: EntryDigest_def ComputeEntryHash_def decodeDigest_hex decodable_def digest_of_def truncated_def split: if_splits)
qed

definition entry_sealed :: "hash_fn \<Rightarrow> byte list \<times> AuditLogEntry \<Rightarrow> bool" where
  "entry_sealed sha256 x \<longleftrightarrow> digest_of (snd x) = truncated sha256 (EntryData (snd x) @ fst x)"

definition entry_content :: "AuditLogEntry \<Rightarrow> AuditLogEntry" where
  "entry_content e = e\<lparr>al_Hash := ''''\<rparr>"

interpretation dl: hash_chain fst "\<lambda>x. digest_of (snd x)" "\<lambda>x. entry_content (snd x)" "entry_sealed sha256"
  "collision (truncated sha256)" for sha256
proof
  fix x y
  assume "entry_sealed sha256 x" "entry_sealed sha256 y" "digest_of (snd x) = digest_of (snd y)"
  then have "truncated sha256 (EntryData (snd x) @ fst x) = truncated sha256 (EntryData (snd y) @ fst y)"
    by (simp add: entry_sealed_def)
  then have "collision (truncated sha256) \<or> EntryData (snd x) @ fst x = EntryData (snd y) @ fst y"
    by (rule collision_or_eq)
  then show "collision (truncated sha256) \<or> entry_content (snd x) = entry_content (snd y) \<and> fst x = fst y"
    using EntryData_inj [of "snd x" "fst x" "snd y" "fst y"] unfolding entry_content_def by blast
qed

fun with_prev :: "byte list \<Rightarrow> AuditLogEntry list \<Rightarrow> (byte list \<times> AuditLogEntry) list" where
  "with_prev d [] = []"
| "with_prev d (e # es) = (d, e) # with_prev (digest_of e) es"

lemma with_prev_simps [simp]:
  "map snd (with_prev d es) = es" "length (with_prev d es) = length es" "with_prev d es = [] \<longleftrightarrow> es = []"
  by (induction es arbitrary: d) auto

lemma derived_linked:
  "derived sha256 d es \<Longrightarrow> linked fst (\<lambda>x. digest_of (snd x)) (entry_sealed sha256) d (with_prev d es)"
  by (induction es arbitrary: d) (simp_all add: entry_sealed_def digest_of_derived)

lemma derived_take: "derived sha256 d es \<Longrightarrow> derived sha256 d (take n es)"
proof (induction es arbitrary: d n)
  case (Cons e es)
  then show ?case by (cases n) simp_all
qed simp

lemma snd_last_with_prev: "es \<noteq> [] \<Longrightarrow> snd (last (with_prev d es)) = last es"
  by (metis last_map with_prev_simps(1) with_prev_simps(3))

lemma derived_same:
  assumes "derived sha256 d es" "derived sha256 d' fs" "length es = length fs" "es \<noteq> []"
    and "digest_of (last es) = digest_of (last fs)"
  shows "collision (truncated sha256) \<or> map entry_content es = map entry_content fs \<and> d = d'"
proof -
  have "fs \<noteq> []" using assms(3,4) by auto
  have "collision (truncated sha256) \<or>
      map (\<lambda>x. entry_content (snd x)) (with_prev d es) = map (\<lambda>x. entry_content (snd x)) (with_prev d' fs) \<and> d = d'"
    using assms \<open>fs \<noteq> []\<close> by (intro dl.same_head derived_linked) (simp_all add: snd_last_with_prev)
  moreover have "map (\<lambda>x. entry_content (snd x)) (with_prev a xs) = map entry_content xs" for a xs
    by (induction xs arbitrary: a) simp_all
  ultimately show ?thesis by simp
qed

lemma sentinel_content: "IsBootSentinel e \<Longrightarrow> entry_content e = Sentinel"
  by (simp add: IsBootSentinel_def entry_content_def Sentinel_def)

lemma genesis_same:
  assumes "from_genesis sha256 es" "from_genesis sha256 fs" "i < length es" "i < length fs"
    and "digest_of (es ! i) = digest_of (fs ! i)"
  shows "collision (truncated sha256) \<or>
    map entry_content (take (Suc i) es) = map entry_content (take (Suc i) fs) \<and> digest_of (hd es) = digest_of (hd fs)"
proof -
  obtain e es' where es: "es = e # es'" using assms(3) by (cases es) auto
  obtain f fs' where fs: "fs = f # fs'" using assms(4) by (cases fs) auto
  have c: "entry_content e = entry_content f"
    using assms(1,2) by (simp add: es fs from_genesis_def sentinel_content)
  show ?thesis
  proof (cases i)
    case 0
    with assms(5) c show ?thesis by (simp add: es fs)
  next
    case (Suc j)
    have j: "j < length es'" "j < length fs'"
      using assms(3,4) Suc by (simp_all add: es fs)
    have "last (take (Suc j) es') = es' ! j" "last (take (Suc j) fs') = fs' ! j"
      using j by (simp_all add: take_Suc_conv_app_nth)
    then have "collision (truncated sha256) \<or>
        map entry_content (take (Suc j) es') = map entry_content (take (Suc j) fs') \<and> digest_of e = digest_of f"
      using assms(1,2,5) j Suc
      by (intro derived_same derived_take) (auto simp: es fs from_genesis_def continues_def)
    with c Suc show ?thesis by (simp add: es fs)
  qed
qed


section \<open>What the options must be\<close>

lemma set_add_command [simp]: "set (add_command c out) = insert c (set out)"
  by (auto simp: add_command_def)

lemma set_fold_add: "set (fold add_command cs out) = set cs \<union> set out"
  by (induction cs arbitrary: out) auto

lemma set_fold_add_if: "set (fold (\<lambda>c out. if P c then add_command c out else out) cs out) = {c \<in> set cs. P c} \<union> set out"
  by (induction cs arbitrary: out) auto

lemma set_RequiredForced:
  "set (RequiredForced walk (Some opts)) = set BaselineForcedCommands \<union> {c \<in> set walk. AllCommands c = None}"
  by (auto simp: RequiredForced_def Let_def set_fold_add_if set_fold_add simp del: fold_simps)

lemma weak_commands_Nil:
  "weak_commands cmds opts = [] \<longleftrightarrow> list_all (\<lambda>c. op_CommandAudit opts c \<in> {None, Some AuditFixed}) cmds"
proof -
  have one: "(case op_CommandAudit opts c of None \<Rightarrow> [] | Some l \<Rightarrow> if l \<noteq> AuditFixed then [weak_text c l] else []) = [] \<longleftrightarrow>
      op_CommandAudit opts c \<in> {None, Some AuditFixed}" for c
    by (cases "op_CommandAudit opts c") auto
  show ?thesis
    by (simp only: weak_commands_def concat_eq_Nil_conv set_map ball_simps one list_all_iff)
qed

lemma Options_Verify_spec:
  assumes "set walk = dom (op_CommandAudit opts)"
  shows "Options_Verify walk (Some opts) = None \<longleftrightarrow> op_ForceAudit opts = AuditFixed \<and>
    list_all (\<lambda>c. op_CommandAudit opts c = Some AuditFixed) BaselineForcedCommands \<and>
    (\<forall>c. AllCommands c = None \<longrightarrow> op_CommandAudit opts c \<in> {None, Some AuditFixed})"
proof -
  have weak: "weak_commands (RequiredForced walk (Some opts)) opts = [] \<longleftrightarrow>
      list_all (\<lambda>c. op_CommandAudit opts c \<in> {None, Some AuditFixed}) BaselineForcedCommands \<and>
      (\<forall>c. AllCommands c = None \<longrightarrow> op_CommandAudit opts c \<in> {None, Some AuditFixed})"
    unfolding weak_commands_Nil list_all_iff set_RequiredForced assms by blast
  have "Options_Verify walk (Some opts) = None \<longleftrightarrow> op_ForceAudit opts = AuditFixed \<and>
      list_all (\<lambda>c. op_CommandAudit opts c \<noteq> None) BaselineForcedCommands \<and>
      weak_commands (RequiredForced walk (Some opts)) opts = []"
    by (simp add: Options_Verify_def Let_def list_all_iff filter_empty_conv)
  with weak show ?thesis
    unfolding list_all_iff by blast
qed

text \<open>
  C30. The option check passes exactly when force-audit is fixed, every command of the
  baseline is reported with the level fixed, and so is every command the device reports
  that this build does not know. The order in which the map is walked does not matter.
\<close>

theorem Options_Verify_iff:
  assumes "set walk = dom (op_CommandAudit opts)"
  shows "Options_Verify walk (Some opts) = None \<longleftrightarrow> op_ForceAudit opts = AuditFixed \<and>
    list_all (\<lambda>c. op_CommandAudit opts c = Some AuditFixed) BaselineForcedCommands \<and>
    (\<forall>c. AllCommands c = None \<longrightarrow> op_CommandAudit opts c \<in> {None, Some AuditFixed})"
  using assms by (rule Options_Verify_spec)

definition demo_options :: Options where
  "demo_options = \<lparr>op_ForceAudit = AuditFixed, op_CommandAudit = (\<lambda>c. Some AuditFixed)\<rparr>"

definition all_commands :: "byte list" where
  "all_commands = map word_of_nat [0..<256]"

lemma demo_walk: "set all_commands = dom (op_CommandAudit demo_options)"
proof -
  have "c \<in> set all_commands" for c :: byte
  proof -
    have "word_of_nat (unat c) = c" "unat c \<in> set [0..<256]"
      by simp_all
    then show ?thesis
      unfolding all_commands_def by (metis image_eqI set_map)
  qed
  then show ?thesis
    by (auto simp: demo_options_def)
qed

lemma demo_options_ok: "Options_Verify all_commands (Some demo_options) = None"
  using Options_Verify_spec [OF demo_walk] by (simp add: demo_options_def list_all_iff)

theorem Options_Verify_iff_witness: "Options_Verify all_commands (Some demo_options) = None"
  using Options_Verify_iff [OF demo_walk] by (simp add: demo_options_def list_all_iff)

section \<open>A small log\<close>

definition demo_log :: "AuditLogEntry list" where
  "demo_log = [Sentinel\<lparr>al_Hash := replicate 32 (CHR ''0'')\<rparr>,
     \<lparr>al_Number = 2, al_Command = 0x00, al_Length = 0, al_SessionKey = 0xffff, al_TargetKey = 0, al_SecondKey = 0,
      al_Result = 0, al_Tick = 0, al_Hash = replicate 32 (CHR ''0'')\<rparr>]"

lemma zero_digest: "hex_encode (replicate n 0) = replicate (2 * n) (CHR ''0'')"
proof -
  have "hex_digit 0 = CHR ''0''"
    by code_simp
  then show ?thesis
    by (induction n) simp_all
qed

lemma demo_digest: "decodeDigest (replicate 32 (CHR ''0'')) = Inr (replicate 16 0)"
  using decodeDigest_hex [of "replicate 16 0"] by (simp add: zero_digest)

lemma demo_log_ok: "sr_OK (VerifyChainFromGenesis (\<lambda>_. replicate 32 0) demo_log \<lparr>un_Boots = 0, un_Authentications = 0\<rparr>)"
  by (simp add: VerifyChainFromGenesis_def VerifySegment_genesis from_genesis_def continues_def demo_log_def Sentinel_def
      IsBootSentinel_def decodable_def digest_of_def demo_digest known_def nextNumber_def AllCommands_def EntryDigest_def
      ComputeEntryHash_def zero_digest)

theorem genesis_numbers_witness: "unat (al_Number (demo_log ! 1)) = 2"
  using genesis_numbers [OF demo_log_ok, of 1] by (simp add: demo_log_def)


end
