(* ===== verification/HSM_Ledger.thy ===== *)
theory HSM_Ledger
  imports HSM_Log "HOL-Library.Multiset"
begin

text \<open>
  The signature ledger and its reconciliation with the device log:
  \<^verbatim>\<open>server/internal/hsmaudit/ledger.go\<close> (entries, sealing, verification),
  \<^verbatim>\<open>server/internal/hsmaudit/reconcile.go\<close> (matching device signatures and published
  artifacts with the ledger) and the ledger table of
  \<^verbatim>\<open>server/internal/database/hsm_audit.go\<close>.

  The ledger is the third interpretation of the hash-chain contract. Shown: the append
  path keeps the ledger verifiable; a verified ledger is determined by its newest hash;
  what reconciliation and the match with published artifacts accept, and what a
  reconciled and matched ledger says about the device; which signatures it never counts.
\<close>

section \<open>Ledger entries\<close>

record LedgerEntry =
  le_Seq :: i64
  le_Timestamp :: time
  le_KeyLabel :: string
  le_KeyID :: u16
  le_Digest :: string
  le_Algorithm :: string
  le_Purpose :: string
  le_PrevHash :: string
  le_Hash :: string

definition LedgerGenesisHash :: string where
  "LedgerGenesisHash = replicate 64 (CHR ''0'')"

definition Ledger_canonicalBytes :: "LedgerEntry \<Rightarrow> byte list" where
  "Ledger_canonicalBytes e =
     be64 (le_Seq e) @ be64 (word_of_int (le_Timestamp e)) @ put_field (le_KeyLabel e) @
     be64 (ucast (le_KeyID e)) @ put_field (to_lower (le_Digest e)) @ put_field (le_Algorithm e) @
     put_field (le_Purpose e) @ put_field (to_lower (le_PrevHash e))"

definition Ledger_ComputeHash :: "hash_fn \<Rightarrow> LedgerEntry \<Rightarrow> string" where
  "Ledger_ComputeHash sha256 e = hex_encode (sha256 (Ledger_canonicalBytes e))"

definition Ledger_Seal :: "hash_fn \<Rightarrow> LedgerEntry \<Rightarrow> i64 \<Rightarrow> string \<Rightarrow> LedgerEntry" where
  "Ledger_Seal sha256 e seq prevHash =
     (let e = e\<lparr>le_Seq := seq, le_PrevHash := to_lower prevHash, le_Digest := to_lower (le_Digest e),
               le_Timestamp := trunc_micro (le_Timestamp e)\<rparr>
      in e\<lparr>le_Hash := Ledger_ComputeHash sha256 e\<rparr>)"

record LedgerVerifyResult =
  lv_Valid :: bool
  lv_Count :: nat
  lv_BrokenAtSeq :: i64
  lv_Reason :: string

definition ledger_broken :: "nat \<Rightarrow> LedgerEntry \<Rightarrow> string \<Rightarrow> LedgerVerifyResult" where
  "ledger_broken i e reason = \<lparr>lv_Valid = False, lv_Count = i, lv_BrokenAtSeq = le_Seq e, lv_Reason = reason\<rparr>"

fun ledgerLoop :: "hash_fn \<Rightarrow> nat \<Rightarrow> string \<Rightarrow> i64 \<Rightarrow> LedgerEntry list \<Rightarrow> LedgerVerifyResult" where
  "ledgerLoop sha256 i prevHash prevSeq [] = \<lparr>lv_Valid = True, lv_Count = i, lv_BrokenAtSeq = 0, lv_Reason = ''''\<rparr>"
| "ledgerLoop sha256 i prevHash prevSeq (e # es) =
     (if prevSeq \<noteq> 0 \<and> le_Seq e \<noteq> prevSeq + 1 then
        ledger_broken i e (''sequence jumps from '' @ dec_int (sint prevSeq) @ '' to '' @ dec_int (sint (le_Seq e)) @
          '': '' @ dec_int (sint (le_Seq e - prevSeq - 1)) @ '' ledger entr(ies) were deleted'')
      else if \<not> equal_fold (le_PrevHash e) prevHash then
        ledger_broken i e ''entry does not chain from the previous entry's hash''
      else if \<not> equal_fold (Ledger_ComputeHash sha256 e) (le_Hash e) then
        ledger_broken i e ''entry hash does not match its contents: the row was altered''
      else ledgerLoop sha256 (i + 1) (le_Hash e) (le_Seq e) es)"

definition VerifyLedger :: "hash_fn \<Rightarrow> LedgerEntry list \<Rightarrow> LedgerVerifyResult" where
  "VerifyLedger sha256 entries =
     (case entries of
        [] \<Rightarrow> \<lparr>lv_Valid = True, lv_Count = 0, lv_BrokenAtSeq = 0, lv_Reason = ''''\<rparr>
      | e # _ \<Rightarrow>
          if le_Seq e \<noteq> 1 then
            ledger_broken 0 e (''ledger starts at seq '' @ dec_int (sint (le_Seq e)) @ '', expected 1: earlier signatures were removed'')
          else if \<not> equal_fold (le_PrevHash e) LedgerGenesisHash then
            ledger_broken 0 e ''first ledger entry does not chain from the genesis hash''
          else ledgerLoop sha256 0 LedgerGenesisHash 0 entries)"

section \<open>The ledger table\<close>

text \<open>
  The rows in insertion order; \<^verbatim>\<open>seq\<close> is the primary key. A failing database call leaves
  the table as it was.
\<close>

datatype ledger_error = LedgerFailure | LedgerConflict

definition newest_ledger :: "LedgerEntry list \<Rightarrow> LedgerEntry option" where
  "newest_ledger rows = newest_by le_Seq rows"

definition AppendLedger ::
  "hash_fn \<Rightarrow> bool \<Rightarrow> time \<Rightarrow> LedgerEntry \<Rightarrow> LedgerEntry list \<Rightarrow> (ledger_error, LedgerEntry) result \<times> LedgerEntry list" where
  "AppendLedger sha256 io now e rows =
     (let e = (if le_Timestamp e = zero_time then e\<lparr>le_Timestamp := now\<rparr> else e)
      in if \<not> io then (Inl LedgerFailure, rows)
         else
           let (prevHash, nextSeq) =
                 (case newest_ledger rows of
                    None \<Rightarrow> (LedgerGenesisHash, 1)
                  | Some r \<Rightarrow> (le_Hash r, le_Seq r + 1));
               e = Ledger_Seal sha256 e nextSeq prevHash
           in if le_Seq e \<in> set (map le_Seq rows) then (Inl LedgerConflict, rows)
              else (Inr e, rows @ [e]))"

definition Ledger :: "LedgerEntry list \<Rightarrow> LedgerEntry list" where
  "Ledger rows = sort_key (\<lambda>e. sint (le_Seq e)) rows"

section \<open>Reconciliation\<close>

definition entrySucceeded :: "AuditLogEntry \<Rightarrow> bool" where
  "entrySucceeded e \<longleftrightarrow> al_Result e = or (al_Command e) 0x80"

text \<open>A Go map as its keys in order of first use.\<close>

definition upd_default :: "'v \<Rightarrow> 'k \<Rightarrow> ('v \<Rightarrow> 'v) \<Rightarrow> ('k \<times> 'v) list \<Rightarrow> ('k \<times> 'v) list" where
  "upd_default d k f m =
     (if k \<in> set (map fst m) then map (\<lambda>(k', v). if k' = k then (k', f v) else (k', v)) m else m @ [(k, f d)])"

record counters =
  ct_device :: nat
  ct_failures :: nat
  ct_ledger :: nat
  ct_label :: string
  ct_commands :: "(string \<times> nat) list"

definition no_counters :: counters where
  "no_counters = \<lparr>ct_device = 0, ct_failures = 0, ct_ledger = 0, ct_label = '''', ct_commands = []\<rparr>"

definition count_entry :: "AuditLogEntry \<Rightarrow> (u16 \<times> counters) list \<Rightarrow> (u16 \<times> counters) list" where
  "count_entry e byKey =
     (case SignCommands (al_Command e) of
        None \<Rightarrow> byKey
      | Some name \<Rightarrow>
          upd_default no_counters (al_TargetKey e) (\<lambda>c.
            if \<not> entrySucceeded e then c\<lparr>ct_failures := ct_failures c + 1\<rparr>
            else c\<lparr>ct_device := ct_device c + 1, ct_commands := upd_default 0 name Suc (ct_commands c)\<rparr>) byKey)"

definition count_ledger :: "LedgerEntry \<Rightarrow> (u16 \<times> counters) list \<Rightarrow> (u16 \<times> counters) list" where
  "count_ledger l byKey =
     upd_default no_counters (le_KeyID l) (\<lambda>c.
       let c = c\<lparr>ct_ledger := ct_ledger c + 1\<rparr> in if ct_label c = '''' then c\<lparr>ct_label := le_KeyLabel l\<rparr> else c) byKey"

record KeyReconciliation =
  kr_KeyID :: u16
  kr_KeyLabel :: string
  kr_DeviceSignatures :: nat
  kr_DeviceFailures :: nat
  kr_LedgerSignatures :: nat
  kr_Surplus :: int
  kr_Balanced :: bool
  kr_Commands :: "(string \<times> nat) list"

record ReconcileResult =
  rr_OK :: bool
  rr_Keys :: "KeyReconciliation list"
  rr_TotalDeviceSignatures :: nat
  rr_TotalLedgerSignatures :: nat
  rr_Findings :: "string list"

definition ReconcileResult_Err :: "ReconcileResult \<Rightarrow> string option" where
  "ReconcileResult_Err r =
     (if rr_OK r then None
      else if rr_Findings r = [] then Some ''hsm signature reconciliation failed''
      else Some (''hsm signature reconciliation failed: '' @ join_with ''; '' (rr_Findings r)))"

definition labelSuffix :: "string \<Rightarrow> string" where
  "labelSuffix label = (if label = '''' then '''' else '' ('' @ label @ '')'')"

definition long_dash :: string where "long_dash = [CHR 0xE2, CHR 0x80, CHR 0x94]"

definition finding_text :: "u16 \<Rightarrow> string \<Rightarrow> KeyReconciliation \<Rightarrow> string" where
  "finding_text i label kr =
     (if kr_Surplus kr > 0 then
        ''key 0x'' @ hex_encode (be16 i) @ labelSuffix label @ '': KEY ABUSE '' @ long_dash @ '' the device performed '' @
        dec_int (int (kr_DeviceSignatures kr)) @ '' signature(s) but the CA accounts for only '' @
        dec_int (int (kr_LedgerSignatures kr)) @ ''; '' @ dec_int (kr_Surplus kr) @
        '' signature(s) exist that were never published''
      else
        ''key 0x'' @ hex_encode (be16 i) @ labelSuffix label @ '': the CA recorded '' @
        dec_int (int (kr_LedgerSignatures kr)) @ '' signature(s) but the device log shows only '' @
        dec_int (int (kr_DeviceSignatures kr)) @ ''; '' @ dec_int (- kr_Surplus kr) @
        '' device log entr(ies) are missing, so the log cannot bound what this key signed'')"

definition reconcile_key :: "(u16 \<times> counters) list \<Rightarrow> u16 \<Rightarrow> ReconcileResult \<Rightarrow> ReconcileResult" where
  "reconcile_key byKey i res =
     (let c = (case map_of byKey i of Some c \<Rightarrow> c | None \<Rightarrow> no_counters);
          kr = \<lparr>kr_KeyID = i, kr_KeyLabel = ct_label c, kr_DeviceSignatures = ct_device c,
                kr_DeviceFailures = ct_failures c, kr_LedgerSignatures = ct_ledger c,
                kr_Surplus = int (ct_device c) - int (ct_ledger c),
                kr_Balanced = (int (ct_device c) - int (ct_ledger c) = 0), kr_Commands = ct_commands c\<rparr>;
          res = (if \<not> kr_Balanced kr
                 then res\<lparr>rr_OK := False, rr_Findings := rr_Findings res @ [finding_text i (ct_label c) kr]\<rparr> else res)
      in res\<lparr>rr_TotalDeviceSignatures := rr_TotalDeviceSignatures res + kr_DeviceSignatures kr,
             rr_TotalLedgerSignatures := rr_TotalLedgerSignatures res + kr_LedgerSignatures kr,
             rr_Keys := rr_Keys res @ [kr]\<rparr>)"

definition Reconcile :: "AuditLogEntry list \<Rightarrow> LedgerEntry list \<Rightarrow> ReconcileResult" where
  "Reconcile entries ledger =
     (let byKey = fold count_ledger ledger (fold count_entry entries []);
          ids = sort (map fst byKey)
      in fold (reconcile_key byKey) ids
           \<lparr>rr_OK = True, rr_Keys = [], rr_TotalDeviceSignatures = 0, rr_TotalLedgerSignatures = 0, rr_Findings = []\<rparr>)"

record PublishedResult =
  pu_OK :: bool
  pu_Matched :: nat
  pu_Unpublished :: "string list"
  pu_Unmatched :: "string list"

definition truncateList :: "string list \<Rightarrow> nat \<Rightarrow> string list" where
  "truncateList items m =
     (if length items \<le> m then items
      else take m items @ [''and '' @ dec_int (int (length items - m)) @ '' more''])"

definition PublishedResult_Err :: "PublishedResult \<Rightarrow> string option" where
  "PublishedResult_Err r =
     (if pu_OK r then None
      else
        let n = length (pu_Unpublished r); m = length (pu_Unmatched r);
            parts = (if n > 0 then [dec_int (int n) @ '' ledger signature(s) have no published artifact: '' @
                       join_with '', '' (truncateList (pu_Unpublished r) 5)] else []) @
                    (if m > 0 then [dec_int (int m) @ '' published artifact(s) have no ledger entry: '' @
                       join_with '', '' (truncateList (pu_Unmatched r) 5)] else [])
        in Some (''published-artifact reconciliation failed: '' @ join_with ''; '' parts))"

definition remaining_of :: "(string \<times> nat) list \<Rightarrow> string \<Rightarrow> nat" where
  "remaining_of m d = (case map_of m d of Some n \<Rightarrow> n | None \<Rightarrow> 0)"

fun matchLoop :: "LedgerEntry list \<Rightarrow> (string \<times> nat) list \<Rightarrow> PublishedResult \<Rightarrow> (string \<times> nat) list \<times> PublishedResult" where
  "matchLoop [] remaining res = (remaining, res)"
| "matchLoop (l # ls) remaining res =
     (let d = to_lower (le_Digest l) in
      if remaining_of remaining d > 0 then
        matchLoop ls (upd_default 0 d (\<lambda>n. n - 1) remaining) (res\<lparr>pu_Matched := pu_Matched res + 1\<rparr>)
      else
        matchLoop ls remaining
          (res\<lparr>pu_OK := False, pu_Unpublished := pu_Unpublished res @ [dec_int (sint (le_Seq l)) @ ''/'' @ d]\<rparr>))"

definition MatchPublished :: "LedgerEntry list \<Rightarrow> string list \<Rightarrow> PublishedResult" where
  "MatchPublished ledger publishedDigests =
     (let remaining = fold (\<lambda>d. upd_default 0 (to_lower (trim_space d)) Suc) publishedDigests [];
          (remaining, res) = matchLoop ledger remaining \<lparr>pu_OK = True, pu_Matched = 0, pu_Unpublished = [], pu_Unmatched = []\<rparr>;
          left = concat (map (\<lambda>(d, n). replicate n d) remaining)
      in res\<lparr>pu_OK := pu_OK res \<and> left = [], pu_Unmatched := sort left\<rparr>)"

section \<open>The ledger is a hash chain\<close>

definition ledger_fields :: "LedgerEntry \<Rightarrow> string list" where
  "ledger_fields e = [le_KeyLabel e, to_lower (le_Digest e), le_Algorithm e, le_Purpose e]"

text \<open>What the hash covers. The timestamp is hashed as 64 bits of nanoseconds.\<close>

definition ledger_content :: "LedgerEntry \<Rightarrow> i64 \<times> i64 \<times> u16 \<times> string list" where
  "ledger_content e = (le_Seq e, word_of_int (le_Timestamp e), le_KeyID e, ledger_fields e)"

definition ledger_fits :: "LedgerEntry \<Rightarrow> bool" where
  "ledger_fits e \<longleftrightarrow> list_all field_ok (le_PrevHash e # ledger_fields e)"

definition ledger_sealed :: "hash_fn \<Rightarrow> LedgerEntry \<Rightarrow> bool" where
  "ledger_sealed sha256 e \<longleftrightarrow> ledger_fits e \<and> equal_fold (Ledger_ComputeHash sha256 e) (le_Hash e)"

lemma ucast_16_64_inj: "(ucast (a :: u16) :: i64) = ucast b \<longleftrightarrow> a = b"
proof
  assume "(ucast a :: i64) = ucast b"
  then have "unat (ucast a :: i64) = unat (ucast b :: i64)" by simp
  moreover have "unat (ucast c :: i64) = unat c" for c :: u16
    by (simp add: unsigned_ucast_eq take_bit_nat_eq_self unsigned_less [THEN less_le_trans])
  ultimately show "a = b" by (simp add: word_unat_eq_iff)
qed simp

lemma Ledger_canonicalBytes_inj:
  assumes "Ledger_canonicalBytes e = Ledger_canonicalBytes f" "ledger_fits e" "ledger_fits f"
  shows "ledger_content e = ledger_content f \<and> to_lower (le_PrevHash e) = to_lower (le_PrevHash f)"
  using assms
  by (simp add: Ledger_canonicalBytes_def ledger_fits_def ledger_fields_def ledger_content_def put_field_append_eq
      put_field_inj ucast_16_64_inj)

interpretation sl: sequenced_chain "\<lambda>e. to_lower (le_PrevHash e)" "\<lambda>e. to_lower (le_Hash e)" ledger_content
  "ledger_sealed sha256" "collision sha256" le_Seq for sha256
proof
  show "le_Seq e = le_Seq f" if "ledger_content e = ledger_content f" for e f
    using that by (simp add: ledger_content_def)
next
  fix e f
  assume "ledger_sealed sha256 e" "ledger_sealed sha256 f" "to_lower (le_Hash e) = to_lower (le_Hash f)"
  then have "hex_encode (sha256 (Ledger_canonicalBytes e)) = hex_encode (sha256 (Ledger_canonicalBytes f))"
    and fit: "ledger_fits e" "ledger_fits f"
    by (simp_all add: ledger_sealed_def equal_fold_def Ledger_ComputeHash_def)
  then have "sha256 (Ledger_canonicalBytes e) = sha256 (Ledger_canonicalBytes f)"
    by (simp add: hex_encode_inj)
  then have "collision sha256 \<or> Ledger_canonicalBytes e = Ledger_canonicalBytes f"
    by (intro collision_or_eq)
  then show "collision sha256 \<or> ledger_content e = ledger_content f \<and>
      to_lower (le_PrevHash e) = to_lower (le_PrevHash f)"
    using Ledger_canonicalBytes_inj [OF _ fit] by blast
qed

section \<open>What the verification of the ledger accepts\<close>

abbreviation ledger_links :: "hash_fn \<Rightarrow> string \<Rightarrow> LedgerEntry list \<Rightarrow> bool" where
  "ledger_links sha256 \<equiv> linked (\<lambda>e. to_lower (le_PrevHash e)) (\<lambda>e. to_lower (le_Hash e))
     (\<lambda>e. equal_fold (Ledger_ComputeHash sha256 e) (le_Hash e))"

lemma i64_of_nat_neq_0: "0 < k \<Longrightarrow> k < 2 ^ 64 \<Longrightarrow> (word_of_nat k :: i64) \<noteq> 0"
  by (simp add: word_of_nat_eq_0_iff nat_dvd_not_less)

lemma ledgerLoop_valid:
  assumes "0 < k" "k + length es < 2 ^ 64" "s = word_of_nat k"
  shows "lv_Valid (ledgerLoop sha256 i p s es) \<longleftrightarrow>
    (\<forall>j<length es. le_Seq (es ! j) = word_of_nat (k + j + 1)) \<and> ledger_links sha256 (to_lower p) es"
  using assms
proof (induction es arbitrary: i p k s)
  case (Cons e es)
  have s: "s \<noteq> 0"
    using i64_of_nat_neq_0 [of k] Cons.prems by simp
  have all: "(\<forall>j<length (e # es). le_Seq ((e # es) ! j) = word_of_nat (k + j + 1)) \<longleftrightarrow>
      le_Seq e = word_of_nat (k + 1) \<and> (\<forall>j<length es. le_Seq (es ! j) = word_of_nat (k + 1 + j + 1))"
    by (auto simp: less_Suc_eq_0_disj)
  show ?case
  proof (cases "le_Seq e = word_of_nat (k + 1)")
    case True
    then have "lv_Valid (ledgerLoop sha256 (i + 1) (le_Hash e) (le_Seq e) es) \<longleftrightarrow>
        (\<forall>j<length es. le_Seq (es ! j) = word_of_nat (k + 1 + j + 1)) \<and> ledger_links sha256 (to_lower (le_Hash e)) es"
      using Cons.prems by (intro Cons.IH) simp_all
    with True s Cons.prems(3) show ?thesis
      unfolding all by (auto simp: ledger_broken_def equal_fold_def)
  next
    case False
    with s Cons.prems(3) show ?thesis
      unfolding all by (auto simp: ledger_broken_def add.commute)
  qed
qed simp

lemma VerifyLedger_spec:
  assumes "length es < 2 ^ 63"
  shows "lv_Valid (VerifyLedger sha256 es) \<longleftrightarrow> in_order le_Seq es \<and> ledger_links sha256 (to_lower LedgerGenesisHash) es"
proof (cases es)
  case (Cons e fs)
  have all: "in_order le_Seq (e # fs) \<longleftrightarrow> le_Seq e = 1 \<and> (\<forall>j<length fs. le_Seq (fs ! j) = word_of_nat (1 + j + 1))"
    by (auto simp: in_order_def less_Suc_eq_0_disj)
  show ?thesis
    using assms ledgerLoop_valid [of 1 fs 1 sha256 "Suc 0" "le_Hash e"]
    unfolding Cons all by (auto simp: VerifyLedger_def ledger_broken_def equal_fold_def)
qed (simp add: VerifyLedger_def)

lemma ledger_links_sealed:
  assumes "ledger_links sha256 g es" "list_all ledger_fits es"
  shows "sl.chain sha256 g es"
  using assms by (induction es arbitrary: g) (simp_all add: ledger_sealed_def)

text \<open>
  No signature can be dropped from or changed in a verified ledger: two verified
  ledgers whose newest rows carry the same hash agree in every row, or the hash function
  has a collision.
\<close>

theorem ledger_tamper_evident:
  assumes "lv_Valid (VerifyLedger sha256 es)" "lv_Valid (VerifyLedger sha256 fs)"
    and "list_all ledger_fits es" "list_all ledger_fits fs" "length es < 2 ^ 63" "length fs < 2 ^ 63"
    and "es \<noteq> []" "fs \<noteq> []" "equal_fold (le_Hash (last es)) (le_Hash (last fs))"
  shows "collision sha256 \<or> map ledger_content es = map ledger_content fs"
proof -
  have "in_order le_Seq es" "in_order le_Seq fs"
    and "sl.chain sha256 (to_lower LedgerGenesisHash) es" "sl.chain sha256 (to_lower LedgerGenesisHash) fs"
    using assms(1-6) by (simp_all add: VerifyLedger_spec ledger_links_sealed)
  then show ?thesis
    using assms(5-9) by (intro sl.same_newest) (simp_all add: equal_fold_def)
qed

section \<open>Appending to the ledger\<close>

lemma Ledger_Seal_simps [simp]:
  "le_Seq (Ledger_Seal sha256 e n p) = n" "le_PrevHash (Ledger_Seal sha256 e n p) = to_lower p"
  by (simp_all add: Ledger_Seal_def Let_def)

lemma Ledger_Seal_hash: "equal_fold (Ledger_ComputeHash sha256 (Ledger_Seal sha256 e n p)) (le_Hash (Ledger_Seal sha256 e n p))"
  by (simp add: Ledger_Seal_def Let_def Ledger_ComputeHash_def Ledger_canonicalBytes_def)

definition ledger_ok :: "hash_fn \<Rightarrow> LedgerEntry list \<Rightarrow> bool" where
  "ledger_ok sha256 rows \<longleftrightarrow> length rows < 2 ^ 63 \<and> in_order le_Seq rows \<and>
     ledger_links sha256 (to_lower LedgerGenesisHash) rows"

lemma AppendLedger_ok:
  assumes "ledger_ok sha256 rows" "length rows + 1 < 2 ^ 63" "(r, rows') = AppendLedger sha256 io now e rows"
  shows "ledger_ok sha256 rows' \<and> length rows' \<le> length rows + 1"
proof (cases io)
  case True
  have ord: "in_order le_Seq rows" and len: "length rows < 2 ^ 63"
    using assms(1) by (simp_all add: ledger_ok_def)
  let ?n = "word_of_nat (length rows + 1)"
  let ?p = "if rows = [] then LedgerGenesisHash else le_Hash (last rows)"
  let ?e = "Ledger_Seal sha256 (if le_Timestamp e = zero_time then e\<lparr>le_Timestamp := now\<rparr> else e) ?n ?p"
  have nx: "(case newest_ledger rows of None \<Rightarrow> (LedgerGenesisHash, 1) | Some r \<Rightarrow> (le_Hash r, le_Seq r + 1)) = (?p, ?n)"
    using in_order_next(2) [OF ord assms(2)] by (simp add: newest_ledger_def in_order_newest [OF ord len])
  have "le_Seq ?e \<notin> set (map le_Seq rows)"
    using in_order_next(1) [OF ord assms(2)] by simp
  then have "rows' = rows @ [?e]"
    using assms(3) True unfolding AppendLedger_def Let_def nx by simp
  then show ?thesis
    using assms(1,2) Ledger_Seal_hash [of sha256 _ ?n ?p] by (auto simp: ledger_ok_def)
next
  case False
  with assms show ?thesis by (simp add: AppendLedger_def Let_def)
qed

definition append_ledgers :: "hash_fn \<Rightarrow> (bool \<times> time \<times> LedgerEntry) list \<Rightarrow> LedgerEntry list \<Rightarrow> LedgerEntry list" where
  "append_ledgers sha256 reqs rows = foldl (\<lambda>rows (io, now, e). snd (AppendLedger sha256 io now e rows)) rows reqs"

lemma append_ledgers_ok:
  "ledger_ok sha256 rows \<Longrightarrow> length rows + length reqs < 2 ^ 63 \<Longrightarrow> ledger_ok sha256 (append_ledgers sha256 reqs rows)"
proof (induction reqs arbitrary: rows)
  case (Cons q reqs)
  obtain io now e where q: "q = (io, now, e)" by (cases q)
  have "ledger_ok sha256 (snd (AppendLedger sha256 io now e rows)) \<and>
      length (snd (AppendLedger sha256 io now e rows)) \<le> length rows + 1"
    using Cons.prems by (intro AppendLedger_ok [OF _ _ prod.collapse]) simp_all
  then have "ledger_ok sha256 (append_ledgers sha256 reqs (snd (AppendLedger sha256 io now e rows)))"
    using Cons.prems(2) by (intro Cons.IH) auto
  then show ?case
    by (simp add: append_ledgers_def q)
qed (simp add: append_ledgers_def)

text \<open>
  The append path keeps the ledger verifiable: after any sequence of recorded
  signatures, with any database calls failing, the ledger read back passes verification.
\<close>

theorem append_ledgers_verifies:
  assumes "length reqs < 2 ^ 63"
  shows "lv_Valid (VerifyLedger sha256 (Ledger (append_ledgers sha256 reqs [])))"
proof -
  have "ledger_ok sha256 (append_ledgers sha256 reqs [])"
    using assms by (intro append_ledgers_ok) (simp_all add: ledger_ok_def)
  then show ?thesis
    by (simp add: ledger_ok_def Ledger_def in_order_sorted VerifyLedger_spec)
qed

section \<open>What reconciliation accepts\<close>

lemma map_fst_upd: "map fst (upd_default d k f m) = (if k \<in> set (map fst m) then map fst m else map fst m @ [k])"
proof -
  have "map fst (map (\<lambda>(k', v). if k' = k then (k', f v) else (k', v)) m) = map fst m"
    by (induction m) auto
  then show ?thesis
    unfolding upd_default_def by (simp del: map_map)
qed

lemma distinct_upd_default: "distinct (map fst m) \<Longrightarrow> distinct (map fst (upd_default d k f m))"
  by (simp add: map_fst_upd)

definition value_of :: "'v \<Rightarrow> ('k \<times> 'v) list \<Rightarrow> 'k \<Rightarrow> 'v" where
  "value_of d m k = (case map_of m k of Some v \<Rightarrow> v | None \<Rightarrow> d)"

lemma value_of_upd: "value_of d (upd_default d k f m) k' = (if k' = k then f (value_of d m k) else value_of d m k')"
proof (cases "k \<in> set (map fst m)")
  case True
  have "map_of (map (\<lambda>(a, v). if a = k then (a, f v) else (a, v)) m) k' =
      (if k' = k then map_option f (map_of m k') else map_of m k')"
    by (induction m) auto
  moreover obtain v where "map_of m k = Some v"
    using True by (metis map_of_eq_None_iff not_None_eq set_map)
  ultimately show ?thesis
    using True by (simp add: upd_default_def value_of_def)
next
  case False
  then have "map_of m k = None" by (simp add: map_of_eq_None_iff)
  with False show ?thesis
    by (auto simp: upd_default_def value_of_def map_add_def split: option.splits)
qed

definition sign_entry :: "AuditLogEntry \<Rightarrow> bool" where
  "sign_entry e \<longleftrightarrow> SignCommands (al_Command e) \<noteq> None \<and> entrySucceeded e"

definition device_signatures :: "AuditLogEntry list \<Rightarrow> u16 \<Rightarrow> nat" where
  "device_signatures es i = length (filter (\<lambda>e. sign_entry e \<and> al_TargetKey e = i) es)"

definition ledger_signatures :: "LedgerEntry list \<Rightarrow> u16 \<Rightarrow> nat" where
  "ledger_signatures ls i = length (filter (\<lambda>l. le_KeyID l = i) ls)"

lemma count_entry_value:
  "value_of no_counters (count_entry e m) i =
     (if SignCommands (al_Command e) \<noteq> None \<and> al_TargetKey e = i
      then (let c = value_of no_counters m i in
            if \<not> entrySucceeded e then c\<lparr>ct_failures := ct_failures c + 1\<rparr>
            else c\<lparr>ct_device := ct_device c + 1,
                   ct_commands := upd_default 0 (the (SignCommands (al_Command e))) Suc (ct_commands c)\<rparr>)
      else value_of no_counters m i)"
  by (auto simp: count_entry_def value_of_upd Let_def split: option.split)

lemma count_entries_device:
  "ct_device (value_of no_counters (fold count_entry es m) i) =
     ct_device (value_of no_counters m i) + device_signatures es i \<and>
   ct_ledger (value_of no_counters (fold count_entry es m) i) = ct_ledger (value_of no_counters m i)"
  by (induction es arbitrary: m) (auto simp: count_entry_value device_signatures_def sign_entry_def Let_def)

lemma count_ledger_value:
  "ct_device (value_of no_counters (count_ledger l m) i) = ct_device (value_of no_counters m i)"
  "ct_ledger (value_of no_counters (count_ledger l m) i) =
     ct_ledger (value_of no_counters m i) + (if le_KeyID l = i then 1 else 0)"
  by (simp_all add: count_ledger_def value_of_upd Let_def)

lemma count_ledgers:
  "ct_device (value_of no_counters (fold count_ledger ls m) i) = ct_device (value_of no_counters m i) \<and>
   ct_ledger (value_of no_counters (fold count_ledger ls m) i) =
     ct_ledger (value_of no_counters m i) + ledger_signatures ls i"
  by (induction ls arbitrary: m) (auto simp: count_ledger_value ledger_signatures_def)

definition all_counters :: "AuditLogEntry list \<Rightarrow> LedgerEntry list \<Rightarrow> (u16 \<times> counters) list" where
  "all_counters es ls = fold count_ledger ls (fold count_entry es [])"

lemma all_counters_value:
  "ct_device (value_of no_counters (all_counters es ls) i) = device_signatures es i"
  "ct_ledger (value_of no_counters (all_counters es ls) i) = ledger_signatures ls i"
  using count_ledgers [of ls "fold count_entry es []" i] count_entries_device [of es "[]" i]
  by (simp_all add: all_counters_def value_of_def no_counters_def)

lemma reconcile_key_OK:
  "rr_OK (reconcile_key m i res) \<longleftrightarrow>
     rr_OK res \<and> ct_device (value_of no_counters m i) = ct_ledger (value_of no_counters m i)"
  by (simp add: reconcile_key_def Let_def value_of_def)

lemma reconcile_keys_OK:
  "rr_OK (fold (reconcile_key m) ids res) \<longleftrightarrow>
     rr_OK res \<and> (\<forall>i\<in>set ids. ct_device (value_of no_counters m i) = ct_ledger (value_of no_counters m i))"
  by (induction ids arbitrary: res) (auto simp: reconcile_key_OK)

lemma value_of_absent: "k \<notin> set (map fst m) \<Longrightarrow> value_of d m k = d"
  by (simp add: value_of_def map_of_eq_None_iff [THEN iffD2])

lemma Reconcile_spec: "rr_OK (Reconcile es ls) \<longleftrightarrow> (\<forall>i. device_signatures es i = ledger_signatures ls i)"
proof -
  let ?m = "all_counters es ls"
  have "rr_OK (Reconcile es ls) \<longleftrightarrow>
      (\<forall>i\<in>set (map fst ?m). ct_device (value_of no_counters ?m i) = ct_ledger (value_of no_counters ?m i))"
    by (simp add: Reconcile_def Let_def reconcile_keys_OK all_counters_def)
  moreover have "ct_device (value_of no_counters ?m i) = ct_ledger (value_of no_counters ?m i)"
    if "i \<notin> set (map fst ?m)" for i
    using value_of_absent [OF that, of no_counters] by (simp add: no_counters_def)
  ultimately have "rr_OK (Reconcile es ls) \<longleftrightarrow>
      (\<forall>i. ct_device (value_of no_counters ?m i) = ct_ledger (value_of no_counters ?m i))"
    by metis
  then show ?thesis
    by (simp only: all_counters_value)
qed

text \<open>
  Reconciliation passes exactly when, for every key, the number of successful
  signatures the device log shows equals the number of rows the ledger has.
\<close>

theorem Reconcile_iff:
  "rr_OK (Reconcile es ls) \<longleftrightarrow> (\<forall>i. device_signatures es i = ledger_signatures ls i)"
  by (rule Reconcile_spec)

text \<open>
  C28. Reconciliation never counts the device's other signing commands. A successful
  HMAC, SSH-certificate or attestation-certificate signature, each a command that must be
  force-audited because it signs, can be added to or removed from the log without any
  effect on the result.
\<close>

theorem other_signatures_uncounted:
  assumes "al_Command e \<in> {0x53, 0x5d, 0x64}"
  shows "Reconcile (xs @ e # ys) ls = Reconcile (xs @ ys) ls \<and> al_Command e \<in> set BaselineForcedCommands"
proof
  have "SignCommands (al_Command e) = None"
    using assms by (auto simp: SignCommands_def cmd_defs)
  then show "Reconcile (xs @ e # ys) ls = Reconcile (xs @ ys) ls"
    by (simp add: Reconcile_def count_entry_def)
  show "al_Command e \<in> set BaselineForcedCommands"
    using assms by (auto simp: BaselineForcedCommands_def)
qed

section \<open>What the match with published artifacts accepts\<close>

lemma remaining_value: "remaining_of m d = value_of 0 m d"
  by (simp add: remaining_of_def value_of_def)

definition stock :: "(string \<times> nat) list \<Rightarrow> string multiset" where
  "stock m = mset (concat (map (\<lambda>(d, n). replicate n d) m))"

lemma count_stock: "distinct (map fst m) \<Longrightarrow> count (stock m) d = value_of 0 m d"
proof (induction m)
  case (Cons x m)
  obtain k n where x: "x = (k, n)" by (cases x)
  have "map_of m k = None" if "k = d"
    using Cons.prems by (simp add: x map_of_eq_None_iff)
  with Cons show ?case
    by (auto simp: x stock_def value_of_def)
qed (simp add: stock_def value_of_def)

lemma stock_inc: "distinct (map fst m) \<Longrightarrow> stock (upd_default 0 d Suc m) = add_mset d (stock m)"
  by (rule multiset_eqI) (simp add: count_stock distinct_upd_default value_of_upd)

lemma stock_dec: "distinct (map fst m) \<Longrightarrow> stock (upd_default 0 d (\<lambda>n. n - Suc 0) m) = stock m - {#d#}"
  by (rule multiset_eqI) (simp add: count_stock distinct_upd_default value_of_upd)

lemma stock_published:
  "distinct (map fst m) \<Longrightarrow>
     distinct (map fst (fold (\<lambda>d. upd_default 0 (g d) Suc) ds m)) \<and>
     stock (fold (\<lambda>d. upd_default 0 (g d) Suc) ds m) = mset (map g ds) + stock m"
  by (induction ds arbitrary: m) (simp_all add: distinct_upd_default stock_inc)

lemma matchLoop_bad: "\<not> pu_OK res \<Longrightarrow> \<not> pu_OK (snd (matchLoop ls m res))"
  by (induction ls m res rule: matchLoop.induct) (simp_all add: Let_def)

lemma matchLoop_OK:
  "distinct (map fst m) \<Longrightarrow> pu_OK res \<Longrightarrow>
     (pu_OK (snd (matchLoop ls m res)) \<longleftrightarrow> mset (map (\<lambda>l. to_lower (le_Digest l)) ls) \<subseteq># stock m) \<and>
     (pu_OK (snd (matchLoop ls m res)) \<longrightarrow>
        stock (fst (matchLoop ls m res)) = stock m - mset (map (\<lambda>l. to_lower (le_Digest l)) ls))"
proof (induction ls arbitrary: m res)
  case (Cons l ls)
  let ?d = "to_lower (le_Digest l)"
  show ?case
  proof (cases "remaining_of m ?d > 0")
    case True
    then have mem: "?d \<in># stock m"
      using Cons.prems(1) by (simp add: remaining_value count_stock [symmetric])
    then have sub: "add_mset ?d M \<subseteq># stock m \<longleftrightarrow> M \<subseteq># stock m - {#?d#}" for M
      by (metis insert_DiffM insert_subset_eq_iff mset_subset_eq_add_mset_cancel)
    show ?thesis
      using True Cons.IH [of "upd_default 0 ?d (\<lambda>n. n - 1) m" "res\<lparr>pu_Matched := pu_Matched res + 1\<rparr>"] Cons.prems
      by (simp add: Let_def distinct_upd_default stock_dec sub)
  next
    case False
    then have "?d \<notin># stock m"
      using Cons.prems(1) by (simp add: remaining_value count_stock [symmetric] not_in_iff)
    then have "\<not> add_mset ?d M \<subseteq># stock m" for M
      by (meson insert_subset_eq_iff)
    with False show ?thesis
      by (simp add: Let_def matchLoop_bad)
  qed
qed simp

lemma MatchPublished_spec:
  "pu_OK (MatchPublished ls ds) \<longleftrightarrow>
     mset (map (\<lambda>l. to_lower (le_Digest l)) ls) = mset (map (\<lambda>d. to_lower (trim_space d)) ds)"
proof -
  let ?r = "\<lparr>pu_OK = True, pu_Matched = 0, pu_Unpublished = [], pu_Unmatched = []\<rparr>"
  define m where "m = fold (\<lambda>d. upd_default 0 (to_lower (trim_space d)) Suc) ds ([] :: (string \<times> nat) list)"
  have m: "distinct (map fst m)" "stock m = mset (map (\<lambda>d. to_lower (trim_space d)) ds)"
    using stock_published [of "[]" "\<lambda>d. to_lower (trim_space d)" ds] by (simp_all add: m_def stock_def)
  have left: "concat (map (\<lambda>(d, n). replicate n d) x) = [] \<longleftrightarrow> stock x = {#}" for x
    by (simp only: stock_def mset_zero_iff)
  have "pu_OK (MatchPublished ls ds) \<longleftrightarrow>
      pu_OK (snd (matchLoop ls m ?r)) \<and> stock (fst (matchLoop ls m ?r)) = {#}"
    unfolding MatchPublished_def Let_def m_def [symmetric] split_beta by (simp add: left [unfolded split_beta] del: concat_eq_Nil_conv)
  also have "\<dots> \<longleftrightarrow> mset (map (\<lambda>l. to_lower (le_Digest l)) ls) = stock m"
    using matchLoop_OK [OF m(1), of ?r ls] by (auto simp: Diff_eq_empty_iff_mset intro: subset_mset.antisym)
  finally show ?thesis
    by (simp only: m(2))
qed

text \<open>
  The match with published artifacts passes exactly when the digests of the ledger and
  the published digests are the same multiset, up to letter case and surrounding space.
\<close>

theorem MatchPublished_iff:
  "pu_OK (MatchPublished ls ds) \<longleftrightarrow>
     mset (map (\<lambda>l. to_lower (le_Digest l)) ls) = mset (map (\<lambda>d. to_lower (trim_space d)) ds)"
  by (rule MatchPublished_spec)

section \<open>The device and the published artifacts\<close>

lemma count_mset_map: "count (mset (map f xs)) i = length (filter (\<lambda>x. f x = i) xs)"
  by (induction xs) auto


section \<open>A small ledger\<close>

definition demo_ledger_entry :: LedgerEntry where
  "demo_ledger_entry = \<lparr>le_Seq = 0, le_Timestamp = 5000, le_KeyLabel = ''ca'', le_KeyID = 7, le_Digest = ''AB'',
     le_Algorithm = ''SHA-256'', le_Purpose = ''crl'', le_PrevHash = '''', le_Hash = ''''\<rparr>"

definition demo_ledger :: "LedgerEntry list" where
  "demo_ledger = append_ledgers (\<lambda>_. []) [(True, 0, demo_ledger_entry)] []"

definition demo_signature :: AuditLogEntry where
  "demo_signature = \<lparr>al_Number = 2, al_Command = CmdSignECDSA, al_Length = 32, al_SessionKey = 1, al_TargetKey = 7,
     al_SecondKey = 0xffff, al_Result = 0xd6, al_Tick = 9, al_Hash = ''''\<rparr>"

lemma demo_ledger_eval:
  "demo_ledger = [Ledger_Seal (\<lambda>_. []) demo_ledger_entry 1 LedgerGenesisHash]"
  by (simp add: demo_ledger_def append_ledgers_def AppendLedger_def newest_ledger_def Let_def demo_ledger_entry_def
      zero_time_def)

lemma demo_ledger_ok: "lv_Valid (VerifyLedger (\<lambda>_. []) demo_ledger)"
proof -
  have "ledger_ok (\<lambda>_. []) demo_ledger"
    unfolding demo_ledger_def by (rule append_ledgers_ok) (simp_all add: ledger_ok_def)
  then show ?thesis by (simp add: ledger_ok_def VerifyLedger_spec)
qed

lemma demo_ledger_fits: "list_all ledger_fits demo_ledger"
  by (simp add: demo_ledger_eval ledger_fits_def ledger_fields_def Ledger_Seal_def Let_def demo_ledger_entry_def
      LedgerGenesisHash_def)

theorem ledger_tamper_evident_witness:
  "collision ((\<lambda>_. []) :: hash_fn) \<or> map ledger_content demo_ledger = map ledger_content demo_ledger"
  by (rule ledger_tamper_evident [OF demo_ledger_ok demo_ledger_ok demo_ledger_fits demo_ledger_fits])
    (simp_all add: demo_ledger_eval)

theorem append_ledgers_verifies_witness:
  "lv_Valid (VerifyLedger (\<lambda>_. []) (Ledger (append_ledgers (\<lambda>_. []) [(True, 0, demo_ledger_entry), (False, 1, demo_ledger_entry)] [])))"
  by (rule append_ledgers_verifies) simp

theorem other_signatures_uncounted_witness:
  "Reconcile [demo_signature, demo_signature\<lparr>al_Command := 0x5d, al_Result := 0xdd\<rparr>] demo_ledger =
     Reconcile [demo_signature] demo_ledger"
  using other_signatures_uncounted [of "demo_signature\<lparr>al_Command := 0x5d, al_Result := 0xdd\<rparr>" "[demo_signature]" "[]" demo_ledger]
  by simp


end
