(* ===== verification/HSM_Collector.thy ===== *)
theory HSM_Collector
  imports HSM_Ledger Audit_Log
begin

text \<open>
  Draining the device log into the database: the collector and its lease
  (\<^verbatim>\<open>server/internal/hsmaudit/collector.go\<close>, \<^verbatim>\<open>lease.go\<close>), the commissioning of a device
  (\<^verbatim>\<open>server/internal/hsmaudit/service.go\<close>, \<^verbatim>\<open>Provision\<close>) and the tables they write
  (\<^verbatim>\<open>server/internal/database/hsm_audit.go\<close>).

  The device is whatever it answers: a cycle is given the device's answers and the fate
  of every database call. The properties are in the theory of collection safety.
\<close>

section \<open>The tables\<close>

record AuditState =
  as_DeviceSerial :: string
  as_Anchor :: string
  as_ProvisionedAt :: time
  as_Tail :: Tail

record HsmStore =
  hs_state :: "AuditState option"
  hs_rows :: "AuditLogEntry list"
  hs_lease :: "(string \<times> time) option"

text \<open>The fate of a database call: it works, or reports an error and did or did not take effect.\<close>

datatype io = Works | Fails string bool

fun io_store :: "io \<Rightarrow> 'w \<Rightarrow> 'w \<Rightarrow> 'w" where
  "io_store Works s s' = s'"
| "io_store (Fails _ applied) s s' = (if applied then s' else s)"

fun io_err :: "io \<Rightarrow> string option" where
  "io_err Works = None"
| "io_err (Fails e _) = Some e"

fun io_void :: "io \<Rightarrow> bool" where
  "io_void Works = False"
| "io_void (Fails _ applied) = (\<not> applied)"

definition AcquireCollectionLease ::
  "io \<Rightarrow> io \<Rightarrow> time \<Rightarrow> string \<Rightarrow> int \<Rightarrow> HsmStore \<Rightarrow> (string, bool) result \<times> HsmStore" where
  "AcquireCollectionLease update_io insert_io now owner ttl s =
     (if trim_space owner = '''' then (Inl ''hsm audit collection lease: an owner is required'', s)
      else
        let expires = now + ttl;
            n = (case hs_lease s of Some (o', x) \<Rightarrow> if o' = owner \<or> x \<le> now then 1 else (0 :: nat) | None \<Rightarrow> 0);
            updated = (if n > 0 then s\<lparr>hs_lease := Some (owner, expires)\<rparr> else s)
        in case io_err update_io of
             Some err \<Rightarrow> (Inl err, io_store update_io s updated)
           | None \<Rightarrow>
               if n > 0 then (Inr True, updated)
               else if hs_lease s \<noteq> None then (Inr False, s)
               else
                 let inserted = s\<lparr>hs_lease := Some (owner, expires)\<rparr>
                 in (Inr (io_err insert_io = None), io_store insert_io s inserted))"

definition ReleaseCollectionLease :: "io \<Rightarrow> string \<Rightarrow> HsmStore \<Rightarrow> HsmStore" where
  "ReleaseCollectionLease fate owner s =
     (case hs_lease s of
        Some (o', x) \<Rightarrow> if o' = owner then io_store fate s (s\<lparr>hs_lease := Some ('''', 0)\<rparr>) else s
      | None \<Rightarrow> s)"

definition LoadAuditState :: "io \<Rightarrow> HsmStore \<Rightarrow> (string, AuditState option) result" where
  "LoadAuditState fate s = (case io_err fate of Some err \<Rightarrow> Inl err | None \<Rightarrow> Inr (hs_state s))"

datatype store_error = CallFailed string | RePin AuditState AuditState | DifferentContent u16 string string

definition UpdateTail :: "io \<Rightarrow> Tail \<Rightarrow> HsmStore \<Rightarrow> store_error option \<times> HsmStore" where
  "UpdateTail fate tail s =
     (map_option CallFailed (io_err fate),
      io_store fate s (s\<lparr>hs_state := map_option (\<lambda>st. st\<lparr>as_Tail :=
        \<lparr>ta_Number = ta_Number tail, ta_Digest = to_lower (ta_Digest tail)\<rparr>\<rparr>) (hs_state s)\<rparr>))"

definition SaveAuditState :: "io \<Rightarrow> io \<Rightarrow> AuditState \<Rightarrow> HsmStore \<Rightarrow> store_error option \<times> HsmStore" where
  "SaveAuditState load_io write_io st s =
     (case LoadAuditState load_io s of
        Inl err \<Rightarrow> (Some (CallFailed err), s)
      | Inr (Some existing) \<Rightarrow>
          if \<not> equal_fold (as_Anchor existing) (as_Anchor st) \<or> \<not> equal_fold (as_DeviceSerial existing) (as_DeviceSerial st)
          then (Some (RePin existing st), s)
          else UpdateTail write_io (as_Tail st) s
      | Inr None \<Rightarrow>
          (map_option CallFailed (io_err write_io),
           io_store write_io s (s\<lparr>hs_state := Some (st\<lparr>as_Anchor := to_lower (as_Anchor st),
             as_Tail := \<lparr>ta_Number = ta_Number (as_Tail st), ta_Digest = to_lower (ta_Digest (as_Tail st))\<rparr>\<rparr>)\<rparr>)))"

definition normalizeEntry :: "AuditLogEntry \<Rightarrow> AuditLogEntry" where
  "normalizeEntry e = e\<lparr>al_Hash := to_lower (al_Hash e)\<rparr>"

text \<open>The rows after the loop of the insert transaction; the entry number is the primary key.\<close>

fun appendRows :: "AuditLogEntry list \<Rightarrow> AuditLogEntry list \<Rightarrow> (store_error, AuditLogEntry list) result" where
  "appendRows [] rows = Inr rows"
| "appendRows (e # es) rows =
     (case find (\<lambda>r. al_Number r = al_Number e) rows of
        None \<Rightarrow> appendRows es (rows @ [e\<lparr>al_Hash := to_lower (al_Hash e)\<rparr>])
      | Some h \<Rightarrow>
          let h = h\<lparr>al_Number := al_Number e, al_Hash := to_lower (al_Hash h)\<rparr> in
          if h \<noteq> normalizeEntry e
          then Inl (DifferentContent (al_Number e) (al_Hash h) (to_lower (al_Hash e)))
          else appendRows es rows)"

text \<open>
  A call that fails without effect stops before the loop or at any statement of it; one
  that fails with effect reports an error of a commit that went through.
\<close>

definition AppendLogEntries :: "io \<Rightarrow> AuditLogEntry list \<Rightarrow> HsmStore \<Rightarrow> store_error option \<times> HsmStore" where
  "AppendLogEntries fate entries s =
     (if entries = [] then (None, s)
      else if io_void fate then (map_option CallFailed (io_err fate), s)
      else
        case appendRows entries (hs_rows s) of
          Inl err \<Rightarrow> (Some err, s)
        | Inr rows \<Rightarrow> (map_option CallFailed (io_err fate), s\<lparr>hs_rows := rows\<rparr>))"

definition LogEntries :: "HsmStore \<Rightarrow> AuditLogEntry list" where
  "LogEntries s = sort_key al_Number (hs_rows s)"

section \<open>The collection lease\<close>

definition CollectionLeaseTTL :: int where "CollectionLeaseTTL = 60 * 1000000000"
definition collectionLeaseWait :: int where "collectionLeaseWait = 30 * 1000000000"
definition collectionLeasePoll :: int where "collectionLeasePoll = 100 * 1000000"

text \<open>
  One attempt at the lease: the store as the other processes left it since the last
  attempt, the clocks the attempt and the deadline check read, and what the context
  reports at its two checks.
\<close>

record Poll =
  po_others :: "HsmStore \<Rightarrow> HsmStore"
  po_update :: io
  po_insert :: io
  po_now :: time
  po_ctx :: "string option"
  po_checked :: time
  po_done :: "string option"

datatype lease_error = AcquireFailed string | Cancelled string | ErrCollectionLeaseBusy

text \<open>The value is None while the attempts given do not decide the outcome.\<close>

fun leaseLoop :: "string \<Rightarrow> time \<Rightarrow> Poll list \<Rightarrow> HsmStore \<Rightarrow> (lease_error option \<times> HsmStore) option" where
  "leaseLoop owner deadline [] s = None"
| "leaseLoop owner deadline (p # ps) s =
     (case AcquireCollectionLease (po_update p) (po_insert p) (po_now p) owner CollectionLeaseTTL (po_others p s) of
        (Inl err, s') \<Rightarrow> Some (Some (AcquireFailed err), s')
      | (Inr True, s') \<Rightarrow> Some (None, s')
      | (Inr False, s') \<Rightarrow>
          (case po_ctx p of
             Some err \<Rightarrow> Some (Some (Cancelled err), s')
           | None \<Rightarrow>
               if po_checked p > deadline then Some (Some ErrCollectionLeaseBusy, s')
               else (case po_done p of Some err \<Rightarrow> Some (Some (Cancelled err), s') | None \<Rightarrow> leaseLoop owner deadline ps s')))"

definition acquireCollectionLease ::
  "string \<Rightarrow> time \<Rightarrow> Poll list \<Rightarrow> HsmStore \<Rightarrow> (lease_error option \<times> HsmStore) option" where
  "acquireCollectionLease owner start polls s = leaseLoop owner (start + collectionLeaseWait) polls s"

section \<open>The collector\<close>

record DeviceInfo =
  di_Serial :: string
  di_Version :: string
  di_PartNumber :: string
  di_LogUsed :: string

record LogResponse =
  lr_Entries :: "AuditLogEntry list"
  lr_UnloggedBoots :: u16
  lr_UnloggedAuthentications :: u16

datatype trim_error = Redelivered u16 string string

fun trimLoop :: "AuditLogEntry list \<Rightarrow> Tail \<Rightarrow> (trim_error, AuditLogEntry list \<times> bool) result" where
  "trimLoop [] tail = Inr ([], False)"
| "trimLoop (e # es) tail =
     (if al_Number e = ta_Number tail then
        (if \<not> equal_fold (al_Hash e) (ta_Digest tail)
         then Inl (Redelivered (al_Number e) (to_lower (al_Hash e)) (to_lower (ta_Digest tail)))
         else Inr (es, True))
      else if isForward (ta_Number tail) (al_Number e) \<and> al_Number e \<noteq> ta_Number tail then Inr (e # es, True)
      else trimLoop es tail)"

definition trimToTail :: "AuditLogEntry list \<Rightarrow> Tail \<Rightarrow> (trim_error, AuditLogEntry list \<times> bool) result" where
  "trimToTail entries tail =
     (if ta_Number tail = 0 \<or> entries = [] then Inr (entries, True) else trimLoop entries tail)"

datatype replaced = FactoryReset u16 string string nat | Unrelated nat u16 u16 u16

definition replacedHistoryError :: "AuditLogEntry list \<Rightarrow> AuditState \<Rightarrow> replaced" where
  "replacedHistoryError entries st =
     (if IsBootSentinel (hd entries)
      then FactoryReset (ta_Number (as_Tail st)) (as_DeviceSerial st) (as_Anchor st) (length entries)
      else Unrelated (length entries) (al_Number (hd entries)) (al_Number (last entries)) (ta_Number (as_Tail st)))"

definition countSignatures :: "AuditLogEntry list \<Rightarrow> nat" where
  "countSignatures entries =
     length (filter (\<lambda>e. SignCommands (al_Command e) \<noteq> None \<and> entrySucceeded e) entries)"

record CollectResult =
  cr_Collected :: nat
  cr_Signatures :: nat
  cr_Tail :: Tail
  cr_LogUsed :: string
  cr_Segment :: SegmentResult

text \<open>One cycle: the device's answers, the outcome of every sink and the fate of every database call.\<close>

record Cycle =
  cy_load :: io
  cy_info :: "(string, DeviceInfo) result"
  cy_fetch :: "(string, LogResponse) result"
  cy_sinks :: "string option list"
  cy_append :: io
  cy_tail :: io

datatype collect_error =
    LoadFailed string | NotProvisioned | InfoFailed string | WrongDevice string string | FetchFailed string
  | TrimFailed trim_error | Replaced replaced | ContinuityBroken "Problem list"
  | SinkFailed string | PersistFailed store_error | TailFailed store_error | LeaseFailed lease_error

fun writeSinks :: "string option list \<Rightarrow> string option" where
  "writeSinks [] = None"
| "writeSinks (Some e # _) = Some e"
| "writeSinks (None # es) = writeSinks es"

text \<open>The block that makes new entries durable: sinks, rows, tail.\<close>

definition persist :: "Cycle \<Rightarrow> AuditLogEntry list \<Rightarrow> Tail \<Rightarrow> HsmStore \<Rightarrow> collect_error option \<times> HsmStore" where
  "persist cy fresh tail s =
     (case writeSinks (cy_sinks cy) of
        Some err \<Rightarrow> (Some (SinkFailed err), s)
      | None \<Rightarrow>
          (case AppendLogEntries (cy_append cy) fresh s of
             (Some err, s') \<Rightarrow> (Some (PersistFailed err), s')
           | (None, s') \<Rightarrow>
               (case UpdateTail (cy_tail cy) tail s' of
                  (Some err, s'') \<Rightarrow> (Some (TailFailed err), s'')
                | (None, s'') \<Rightarrow> (None, s''))))"

text \<open>The part of a cycle up to the entries that are new.\<close>

definition fetchFresh ::
  "Cycle \<Rightarrow> HsmStore \<Rightarrow> (collect_error, AuditState \<times> DeviceInfo \<times> LogResponse \<times> AuditLogEntry list) result" where
  "fetchFresh cy s =
     (case LoadAuditState (cy_load cy) s of
        Inl err \<Rightarrow> Inl (LoadFailed err)
      | Inr None \<Rightarrow> Inl NotProvisioned
      | Inr (Some st) \<Rightarrow>
         (case cy_info cy of
            Inl err \<Rightarrow> Inl (InfoFailed err)
          | Inr info \<Rightarrow>
             if \<not> equal_fold (trim_space (di_Serial info)) (trim_space (as_DeviceSerial st))
             then Inl (WrongDevice (di_Serial info) (as_DeviceSerial st))
             else
              (case cy_fetch cy of
                 Inl err \<Rightarrow> Inl (FetchFailed err)
               | Inr resp \<Rightarrow>
                  (case trimToTail (lr_Entries resp) (as_Tail st) of
                     Inl err \<Rightarrow> Inl (TrimFailed err)
                   | Inr (fresh, placed) \<Rightarrow>
                      if \<not> placed then Inl (Replaced (replacedHistoryError (lr_Entries resp) st))
                      else Inr (st, info, resp, fresh)))))"

text \<open>
  The result, the store, and the entry number acknowledged to the device. The partial
  result that accompanies an error is left out; a failed acknowledgement is only logged.
\<close>

definition collectLocked ::
  "hash_fn \<Rightarrow> Cycle \<Rightarrow> HsmStore \<Rightarrow> (collect_error, CollectResult) result \<times> HsmStore \<times> u16 option" where
  "collectLocked sha256 cy s =
     (case fetchFresh cy s of
        Inl err \<Rightarrow> (Inl err, s, None)
      | Inr (st, info, resp, fresh) \<Rightarrow>
         let unlogged = \<lparr>un_Boots = lr_UnloggedBoots resp, un_Authentications = lr_UnloggedAuthentications resp\<rparr>;
             seg = VerifySegment sha256 fresh (Some (as_Tail st)) unlogged;
             res = \<lparr>cr_Collected = 0, cr_Signatures = 0, cr_Tail = as_Tail st,
                    cr_LogUsed = di_LogUsed info, cr_Segment = seg\<rparr>;
             ack = (if lr_Entries resp \<noteq> [] then Some (al_Number (last (lr_Entries resp))) else None)
         in case SegmentResult_Err seg of
              Some ps \<Rightarrow> (Inl (ContinuityBroken ps), s, None)
            | None \<Rightarrow>
               if fresh = [] then (Inr res, s, ack)
               else
                (case persist cy fresh (sr_Tail seg) s of
                   (Some err, s') \<Rightarrow> (Inl err, s', None)
                 | (None, s') \<Rightarrow>
                    (Inr (res\<lparr>cr_Collected := length fresh, cr_Signatures := countSignatures fresh,
                              cr_Tail := sr_Tail seg\<rparr>), s', ack)))"

text \<open>A drain under the lease. The value is None while the wait for the lease is undecided.\<close>

record Drain =
  dr_owner :: string
  dr_start :: time
  dr_polls :: "Poll list"
  dr_cycle :: Cycle
  dr_release :: io

definition Collect ::
  "hash_fn \<Rightarrow> Drain \<Rightarrow> HsmStore \<Rightarrow> ((collect_error, CollectResult) result \<times> HsmStore \<times> u16 option) option" where
  "Collect sha256 dr s =
     (case acquireCollectionLease (dr_owner dr) (dr_start dr) (dr_polls dr) s of
        None \<Rightarrow> None
      | Some (Some err, s') \<Rightarrow> Some (Inl (LeaseFailed err), s', None)
      | Some (None, s') \<Rightarrow>
          (case collectLocked sha256 (dr_cycle dr) s' of
             (r, s'', ack) \<Rightarrow> Some (r, ReleaseCollectionLease (dr_release dr) (dr_owner dr) s'', ack)))"

section \<open>Commissioning\<close>

definition GenesisDetail :: "AuditState \<Rightarrow> string" where
  "GenesisDetail st =
     ''chain anchor '' @ to_lower (as_Anchor st) @
     '' pinned from the factory-reset device-init sentinel (entry 1, preimage '' @ SentinelPreimageHex @
     ''); the anchor is the device's own digest of that entry and cannot be recomputed from it, '' @
     ''so this record is what dates it''"

text \<open>What commissioning meets: the device's answers, the outcome of every call, and the drain at its end.\<close>

record Commission =
  cm_info :: "(string, DeviceInfo) result"
  cm_load :: io
  cm_auditor :: bool
  cm_fetch :: "(string, LogResponse) result"
  cm_now :: time
  cm_sinks :: "string option list"
  cm_append :: io
  cm_reload :: io
  cm_save :: io
  cm_actor :: string
  cm_eventID :: string
  cm_event :: bool
  cm_consume :: "string option"
  cm_before :: "(string, Options option) result"
  cm_walk :: "byte list"
  cm_provision :: "byte list \<Rightarrow> string option"
  cm_after :: "(string, Options option) result"
  cm_walk_after :: "byte list"
  cm_drain :: Drain

definition recordGenesis ::
  "hash_fn \<Rightarrow> Commission \<Rightarrow> AuditState \<Rightarrow> Event list \<Rightarrow> (db_error, Event) result \<times> Event list" where
  "recordGenesis sha256 cm st log =
     AppendEvent sha256 (cm_event cm) (cm_now cm)
       \<lparr>ev_Seq = 0, ev_ID = cm_eventID cm, ev_Timestamp = as_ProvisionedAt st,
        ev_Actor = (if cm_actor cm = '''' then ''system'' else cm_actor cm), ev_ActorName = '''',
        ev_ActorRoles = ''system'', ev_Action = ''hsm.provision_audit'', ev_Tenant = '''',
        ev_Target = as_DeviceSerial st, ev_TargetName = '''', ev_Result = ''success'',
        ev_Detail = GenesisDetail st, ev_IP = '''', ev_RequestID = '''', ev_PrevHash = '''', ev_Hash = ''''\<rparr> log"

datatype provision_error =
    PInfo string | PLoad string | AlreadyProvisioned AuditState | NoAuditor | PFetch string | PUnlogged u16 u16
  | PInit init_error | PVerify "Problem list" | PSink string | PAppend store_error | PSave store_error
  | PGenesis db_error | PConsume string | POptions string | PForce string | PReadBack string
  | PInsufficient string | PCollect collect_error

record ProvisionResult =
  pv_Device :: DeviceInfo
  pv_Anchor :: string
  pv_Options :: "Options option"
  pv_Collected :: nat

text \<open>Step 1 of commissioning: the device is freshly reset and its log verifies. The state to be pinned.\<close>

definition checkReset ::
  "hash_fn \<Rightarrow> Commission \<Rightarrow> HsmStore \<Rightarrow> (provision_error, DeviceInfo \<times> AuditLogEntry list \<times> AuditState) result" where
  "checkReset sha256 cm s =
     (case cm_info cm of
        Inl err \<Rightarrow> Inl (PInfo err)
      | Inr info \<Rightarrow>
         (case LoadAuditState (cm_load cm) s of
            Inl err \<Rightarrow> Inl (PLoad err)
          | Inr (Some existing) \<Rightarrow> Inl (AlreadyProvisioned existing)
          | Inr None \<Rightarrow>
             if \<not> cm_auditor cm then Inl NoAuditor
             else
              (case cm_fetch cm of
                 Inl err \<Rightarrow> Inl (PFetch err)
               | Inr resp \<Rightarrow>
                  if lr_UnloggedBoots resp > 0 \<or> lr_UnloggedAuthentications resp > 0
                  then Inl (PUnlogged (lr_UnloggedBoots resp) (lr_UnloggedAuthentications resp))
                  else
                   (case CheckDeviceInitEntry (lr_Entries resp) of
                      Some err \<Rightarrow> Inl (PInit err)
                    | None \<Rightarrow>
                       let es = lr_Entries resp;
                           tail = \<lparr>ta_Number = al_Number (last es), ta_Digest = to_lower (al_Hash (last es))\<rparr>;
                           st = \<lparr>as_DeviceSerial = di_Serial info, as_Anchor = to_lower (al_Hash (hd es)),
                                 as_ProvisionedAt = cm_now cm, as_Tail = tail\<rparr>;
                           seg = VerifyChainFromGenesis sha256 es \<lparr>un_Boots = 0, un_Authentications = 0\<rparr>
                       in if \<not> sr_OK seg then Inl (PVerify (sr_Problems seg)) else Inr (info, es, st)))))"

text \<open>Step 2: the entries are stored and the state is pinned.\<close>

definition pinDevice ::
  "Commission \<Rightarrow> AuditLogEntry list \<Rightarrow> AuditState \<Rightarrow> HsmStore \<Rightarrow> provision_error option \<times> HsmStore" where
  "pinDevice cm es st s =
     (case writeSinks (cm_sinks cm) of
        Some err \<Rightarrow> (Some (PSink err), s)
      | None \<Rightarrow>
         (case AppendLogEntries (cm_append cm) es s of
            (Some err, s') \<Rightarrow> (Some (PAppend err), s')
          | (None, s') \<Rightarrow>
             (case SaveAuditState (cm_reload cm) (cm_save cm) st s' of
                (Some err, s'') \<Rightarrow> (Some (PSave err), s'')
              | (None, s'') \<Rightarrow> (None, s''))))"

text \<open>Steps 4 and 5: the device is configured and its options are read back.\<close>

definition forceAudit :: "Commission \<Rightarrow> (provision_error, Options option) result" where
  "forceAudit cm =
     (case cm_before cm of
        Inl err \<Rightarrow> Inl (POptions err)
      | Inr before \<Rightarrow>
         (case cm_provision cm (RequiredForced (cm_walk cm) before) of
            Some err \<Rightarrow> Inl (PForce err)
          | None \<Rightarrow>
             (case cm_after cm of
                Inl err \<Rightarrow> Inl (PReadBack err)
              | Inr opts \<Rightarrow>
                 (case Options_Verify (cm_walk_after cm) opts of
                    Some err \<Rightarrow> Inl (PInsufficient err)
                  | None \<Rightarrow> Inr opts))))"

definition Provision ::
  "hash_fn \<Rightarrow> Commission \<Rightarrow> HsmStore \<Rightarrow> Event list \<Rightarrow>
     ((provision_error, ProvisionResult) result \<times> HsmStore \<times> Event list) option" where
  "Provision sha256 cm s log =
     (case checkReset sha256 cm s of
        Inl err \<Rightarrow> Some (Inl err, s, log)
      | Inr (info, es, st) \<Rightarrow>
         (case pinDevice cm es st s of
            (Some err, s') \<Rightarrow> Some (Inl err, s', log)
          | (None, s') \<Rightarrow>
             (case recordGenesis sha256 cm st log of
                (Inl err, log') \<Rightarrow> Some (Inl (PGenesis err), s', log')
              | (Inr _, log') \<Rightarrow>
                 (case cm_consume cm of
                    Some err \<Rightarrow> Some (Inl (PConsume err), s', log')
                  | None \<Rightarrow>
                     (case forceAudit cm of
                        Inl err \<Rightarrow> Some (Inl err, s', log')
                      | Inr opts \<Rightarrow>
                         (case Collect sha256 (cm_drain cm) s' of
                            None \<Rightarrow> None
                          | Some (Inl err, s'', _) \<Rightarrow> Some (Inl (PCollect err), s'', log')
                          | Some (Inr cr, s'', _) \<Rightarrow>
                              Some (Inr \<lparr>pv_Device = info, pv_Anchor = as_Anchor st, pv_Options = opts,
                                         pv_Collected = cr_Collected cr\<rparr>, s'', log')))))))"

end
