(* ===== verification/HSM_Collector_Safety.thy ===== *)
theory HSM_Collector_Safety
  imports HSM_Collector "HOL-Library.Sublist"
begin

text \<open>
  What collecting and commissioning guarantee: whatever the device answers and whatever
  fails, the stored log verifies from the factory reset on, it only grows, and its anchor
  stays; nothing new is acknowledged to the device before it is stored; a commissioned
  device has its anchor in the event log and the required audit options; the lease
  excludes other processes while it runs and the wait for it ends; and a log that has
  reached entry 65535 can never be continued.
\<close>

section \<open>What a stored log promises\<close>

definition tail_of :: "AuditLogEntry \<Rightarrow> Tail" where
  "tail_of e = \<lparr>ta_Number = al_Number e, ta_Digest = to_lower (al_Hash e)\<rparr>"

definition rows_ok :: "hash_fn \<Rightarrow> AuditLogEntry list \<Rightarrow> bool" where
  "rows_ok sha256 rows \<longleftrightarrow> from_genesis sha256 rows \<and> distinct (map al_Number rows) \<and>
     list_all (\<lambda>e. normalizeEntry e = e) rows"

definition stored_ok :: "hash_fn \<Rightarrow> HsmStore \<Rightarrow> bool" where
  "stored_ok sha256 s \<longleftrightarrow> rows_ok sha256 (hs_rows s) \<and>
     (case hs_state s of
        None \<Rightarrow> True
      | Some st \<Rightarrow> hs_rows s \<noteq> [] \<and> as_Anchor st = al_Hash (hd (hs_rows s)) \<and>
          list_ex (\<lambda>e. as_Tail st = tail_of e) (hs_rows s))"

lemma normalizeEntry_simps [simp]:
  "al_Number (normalizeEntry e) = al_Number e" "al_Command (normalizeEntry e) = al_Command e"
  "al_Hash (normalizeEntry e) = to_lower (al_Hash e)" "normalizeEntry (normalizeEntry e) = normalizeEntry e"
  "tail_of (normalizeEntry e) = tail_of e"
  by (simp_all add: normalizeEntry_def tail_of_def)

lemma normalizeEntry_digest [simp]:
  "digest_of (normalizeEntry e) = digest_of e" "decodable (normalizeEntry e) = decodable e"
  "EntryDigest sha256 (normalizeEntry e) d = EntryDigest sha256 e d"
  "IsBootSentinel (normalizeEntry e) = IsBootSentinel e"
  using decodeDigest_fold [of "to_lower (al_Hash e)" "al_Hash e"]
  by (simp_all add: digest_of_def decodable_def normalizeEntry_def EntryDigest_def ComputeEntryHash_def EntryData_def
      IsBootSentinel_def)

lemma continues_Cons:
  "continues sha256 n d (e # es) \<longleftrightarrow> al_Number e = nextNumber n \<and> equal_fold (EntryDigest sha256 e d) (al_Hash e) \<and>
     decodable e \<and> AllCommands (al_Command e) \<noteq> None \<and> continues sha256 (al_Number e) (digest_of e) es"
  by (auto simp: continues_def known_def)

lemma continues_Nil [simp]: "continues sha256 n d []"
  by (simp add: continues_def known_def)

lemma continues_snoc:
  "continues sha256 n d (es @ [e]) \<longleftrightarrow> continues sha256 n d es \<and>
     (if es = [] then continues sha256 n d [e] else continues sha256 (al_Number (last es)) (digest_of (last es)) [e])"
  by (induction es arbitrary: n d) (auto simp: continues_Cons)

lemma from_genesis_snoc:
  "from_genesis sha256 (es @ [e]) \<longleftrightarrow>
     (if es = [] then IsBootSentinel e \<and> decodable e
      else from_genesis sha256 es \<and> continues sha256 (al_Number (last es)) (digest_of (last es)) [e])"
  by (cases es) (auto simp: from_genesis_def continues_snoc IsBootSentinel_def)

lemma rows_number:
  assumes "rows_ok sha256 rows" "i < length rows"
  shows "unat (al_Number (rows ! i)) = i + 1" "length rows \<le> 65535"
proof -
  have num: "unat (al_Number (rows ! j)) = j mod 65535 + 1" if "j < length rows" for j
    using numbered_nth [OF genesis_numbered, of sha256 rows 0 j] assms(1) that by (simp add: rows_ok_def)
  show len: "length rows \<le> 65535"
  proof (rule ccontr)
    assume long: "\<not> length rows \<le> 65535"
    then have "al_Number (rows ! 0) = al_Number (rows ! 65535)"
      using num [of 0] num [of 65535] by (cases "rows = []") (simp_all add: word_unat_eq_iff)
    then have "map al_Number rows ! 0 = map al_Number rows ! 65535"
      using long by (subst (1 2) nth_map) auto
    moreover have "distinct (map al_Number rows)"
      using assms(1) by (simp add: rows_ok_def)
    ultimately show False
      using long nth_eq_iff_index_eq [of "map al_Number rows" 0 65535] by (cases "rows = []") simp_all
  qed
  show "unat (al_Number (rows ! i)) = i + 1"
    using num [OF assms(2)] len assms(2) by simp
qed

lemma next_unstored:
  assumes "rows_ok sha256 rows" "r \<in> set rows" "nextNumber (al_Number r) \<notin> set (map al_Number rows)"
  shows "r = last rows"
proof -
  obtain i where i: "i < length rows" "r = rows ! i"
    using assms(2) by (auto simp: in_set_conv_nth)
  note num = rows_number [OF assms(1)]
  show ?thesis
  proof (cases "Suc i = length rows")
    case True
    then have "rows \<noteq> []" "length rows - 1 = i" by auto
    then show ?thesis using i by (simp add: last_conv_nth)
  next
    case False
    with i(1) have less: "Suc i < length rows" by simp
    then have "unat (nextNumber (al_Number r)) = Suc i + 1"
      using nextNumber_value [of "al_Number r" i] num(1) [OF i(1)] num(2) [OF i(1)] i by simp
    then have "nextNumber (al_Number r) = al_Number (rows ! Suc i)"
      using num(1) [OF less] by (simp add: word_unat_eq_iff)
    then show ?thesis
      using assms(3) less by (metis length_map nth_map nth_mem)
  qed
qed

lemma find_number: "find (\<lambda>r. al_Number r = n) rows = None \<longleftrightarrow> n \<notin> set (map al_Number rows)"
  "find (\<lambda>r. al_Number r = n) rows = Some h \<Longrightarrow> h \<in> set rows \<and> al_Number h = n"
  by (auto simp: find_None_iff find_Some_iff)

text \<open>The row an entry meets is its own, or the entry is appended.\<close>

lemma appendRows_Cons:
  assumes "rows_ok sha256 rows" "appendRows (e # es) rows = Inr rows'"
  shows "al_Number e \<notin> set (map al_Number rows) \<and> appendRows es (rows @ [normalizeEntry e]) = Inr rows' \<or>
    normalizeEntry e \<in> set rows \<and> appendRows es rows = Inr rows'"
proof (cases "find (\<lambda>r. al_Number r = al_Number e) rows")
  case None
  then show ?thesis
    using assms(2) find_number(1) [of "al_Number e" rows] by (simp add: normalizeEntry_def)
next
  case (Some h)
  have h: "h \<in> set rows" "al_Number h = al_Number e"
    using find_number(2) [OF Some] by simp_all
  have "normalizeEntry h = h"
    using assms(1) h(1) by (simp add: rows_ok_def list_all_iff)
  moreover have "h\<lparr>al_Number := al_Number e, al_Hash := to_lower (al_Hash h)\<rparr> = normalizeEntry h"
    using h(2) by (cases h) (simp add: normalizeEntry_def)
  ultimately show ?thesis
    using assms(2) Some h(1) by (auto simp: Let_def split: if_splits)
qed

lemma appendRows_continues:
  assumes "rows_ok sha256 rows" "r \<in> set rows" "continues sha256 (al_Number r) (digest_of r) es"
    and "appendRows es rows = Inr rows'"
  shows "rows_ok sha256 rows' \<and> prefix rows rows' \<and> list_all (\<lambda>e. normalizeEntry e \<in> set rows') es"
  using assms
proof (induction es arbitrary: rows r)
  case (Cons e es)
  note ok = \<open>rows_ok sha256 rows\<close>
  have cont: "al_Number e = nextNumber (al_Number r)" "continues sha256 (al_Number r) (digest_of r) [normalizeEntry e]"
    and rest: "continues sha256 (al_Number (normalizeEntry e)) (digest_of (normalizeEntry e)) es"
    using Cons.prems(3) unfolding continues_Cons by (auto simp: continues_Cons)
  from appendRows_Cons [OF ok Cons.prems(4)] show ?case
  proof (elim disjE conjE)
    assume new: "al_Number e \<notin> set (map al_Number rows)" and app: "appendRows es (rows @ [normalizeEntry e]) = Inr rows'"
    have r: "r = last rows"
      using next_unstored [OF ok Cons.prems(2)] new cont(1) by simp
    have "rows_ok sha256 (rows @ [normalizeEntry e])"
      using ok new cont(2) Cons.prems(2) by (auto simp: rows_ok_def from_genesis_snoc r)
    note step = Cons.IH [OF this _ rest app]
    then have "prefix (rows @ [normalizeEntry e]) rows'"
      by simp
    then have "prefix rows rows'" "normalizeEntry e \<in> set rows'"
      by (auto simp: prefix_def)
    then show ?thesis
      using step by simp
  next
    assume "normalizeEntry e \<in> set rows" "appendRows es rows = Inr rows'"
    then show ?thesis
      using Cons.IH [OF ok _ rest] by (auto dest: set_mono_prefix)
  qed
qed simp

lemma appendRows_genesis:
  assumes "rows_ok sha256 rows" "from_genesis sha256 es" "appendRows es rows = Inr rows'"
  shows "rows_ok sha256 rows' \<and> prefix rows rows' \<and> list_all (\<lambda>e. normalizeEntry e \<in> set rows') es"
proof (cases es)
  case (Cons e es')
  note ok = assms(1)
  have e: "IsBootSentinel e" "decodable e" "al_Number e = 1"
    and rest: "continues sha256 (al_Number (normalizeEntry e)) (digest_of (normalizeEntry e)) es'"
    using assms(2) by (auto simp: from_genesis_def Cons IsBootSentinel_def)
  from appendRows_Cons [OF ok assms(3) [unfolded Cons]] show ?thesis
  proof (elim disjE conjE)
    assume new: "al_Number e \<notin> set (map al_Number rows)" and app: "appendRows es' (rows @ [normalizeEntry e]) = Inr rows'"
    have "rows = []"
    proof (rule ccontr)
      assume "rows \<noteq> []"
      then have "unat (al_Number (rows ! 0)) = 1" "rows ! 0 \<in> set rows"
        using rows_number(1) [OF ok, of 0] by simp_all
      then show False
        using new e(3) by (metis image_eqI list.set_map unat_1 word_unat_eq_iff)
    qed
    then have "rows_ok sha256 (rows @ [normalizeEntry e])"
      using e by (simp add: rows_ok_def from_genesis_def)
    note step = appendRows_continues [OF this _ rest app]
    then show ?thesis
      by (auto simp: Cons prefix_def)
  next
    assume "normalizeEntry e \<in> set rows" "appendRows es' rows = Inr rows'"
    then show ?thesis
      using appendRows_continues [OF ok _ rest] by (auto simp: Cons dest: set_mono_prefix)
  qed
qed (use assms in simp)

section \<open>Every operation keeps the stored log\<close>

text \<open>
  What an operation may do to the store: keep the log verifiable, add to its end, and
  leave a pinned device, anchor and time as they are.
\<close>

definition pinned_id :: "AuditState \<Rightarrow> string \<times> string \<times> time" where
  "pinned_id st = (as_DeviceSerial st, as_Anchor st, as_ProvisionedAt st)"

definition keeps :: "hash_fn \<Rightarrow> HsmStore \<Rightarrow> HsmStore \<Rightarrow> bool" where
  "keeps sha256 s s' \<longleftrightarrow> (stored_ok sha256 s \<longrightarrow> stored_ok sha256 s' \<and> prefix (hs_rows s) (hs_rows s') \<and>
     (hs_state s = None \<or> map_option pinned_id (hs_state s') = map_option pinned_id (hs_state s)))"

text \<open>
  The interface between the lease and what runs under it: any relation that is closed
  under sequencing and does not speak of the lease is kept by the wait for the lease and
  its release.
\<close>

locale store_guarantee =
  fixes G :: "HsmStore \<Rightarrow> HsmStore \<Rightarrow> bool"
  assumes refl [simp]: "G s s"
    and trans: "G s t \<Longrightarrow> G t u \<Longrightarrow> G s u"
    and lease [simp]: "G s (s\<lparr>hs_lease := l\<rparr>)"
begin

lemma io_store_G: "G s s' \<Longrightarrow> G s (io_store fate s s')"
  by (cases fate) simp_all

lemma acquire_G: "AcquireCollectionLease u i now owner ttl s = (r, s') \<Longrightarrow> G s s'"
  by (auto simp: AcquireCollectionLease_def Let_def intro!: io_store_G split: if_splits option.splits)

lemma release_G: "G s (ReleaseCollectionLease fate owner s)"
  by (auto simp: ReleaseCollectionLease_def intro!: io_store_G split: option.splits)

lemma leaseLoop_G:
  assumes "list_all (\<lambda>p. \<forall>s. G s (po_others p s)) ps" "leaseLoop owner deadline ps s = Some (r, s')"
  shows "G s s'"
  using assms
proof (induction ps arbitrary: s)
  case (Cons p ps)
  obtain x t where acq: "AcquireCollectionLease (po_update p) (po_insert p) (po_now p) owner CollectionLeaseTTL (po_others p s) = (x, t)"
    by fastforce
  have "G s t"
    using Cons.prems(1) acquire_G [OF acq] by (auto intro: trans)
  moreover have "G t s'"
    using Cons.prems Cons.IH [of t] acq
    by (auto split: sum.splits bool.splits option.splits if_splits)
  ultimately show ?case by (rule trans)
qed simp

lemma Collect_G:
  assumes "list_all (\<lambda>p. \<forall>s. G s (po_others p s)) (dr_polls dr)"
    and "\<And>s. G s (fst (snd (collectLocked sha256 (dr_cycle dr) s)))"
    and "Collect sha256 dr s = Some (r, s', ack)"
  shows "G s s'"
proof -
  obtain e t where acq: "acquireCollectionLease (dr_owner dr) (dr_start dr) (dr_polls dr) s = Some (e, t)"
    using assms(3) by (auto simp: Collect_def split: option.splits)
  have "G s t"
    using leaseLoop_G [OF assms(1)] acq by (auto simp: acquireCollectionLease_def)
  moreover have "G t s'"
  proof (cases e)
    case None
    obtain x u a where run: "collectLocked sha256 (dr_cycle dr) t = (x, u, a)"
      by (metis prod.exhaust)
    then have "G t u" "s' = ReleaseCollectionLease (dr_release dr) (dr_owner dr) u"
      using assms(2) [of t] assms(3) acq None by (auto simp: Collect_def)
    then show ?thesis
      using release_G trans by blast
  qed (use assms(3) acq in \<open>simp add: Collect_def\<close>)
  ultimately show ?thesis by (rule trans)
qed

end

lemma keeps_trans: "keeps sha256 s t \<Longrightarrow> keeps sha256 t u \<Longrightarrow> keeps sha256 s u"
  by (auto simp: keeps_def)

lemma keeps_refl [simp]: "keeps sha256 s s"
  by (simp add: keeps_def)

interpretation hs: store_guarantee "keeps sha256" for sha256
  by (unfold_locales, simp, erule (1) keeps_trans, simp add: keeps_def stored_ok_def split: option.split)

lemma rows_ok_hd_prefix: "prefix rows rows' \<Longrightarrow> rows \<noteq> [] \<Longrightarrow> rows' \<noteq> [] \<and> hd rows' = hd rows"
  by (auto simp: prefix_def)

lemma stored_ok_grow:
  assumes "stored_ok sha256 s" "rows_ok sha256 rows'" "prefix (hs_rows s) rows'"
  shows "stored_ok sha256 (s\<lparr>hs_rows := rows'\<rparr>)"
  using assms rows_ok_hd_prefix [OF assms(3)] set_mono_prefix [OF assms(3)]
  by (auto simp: stored_ok_def list_ex_iff split: option.splits)

lemma keeps_grow:
  assumes "rows_ok sha256 (hs_rows s) \<Longrightarrow> rows_ok sha256 rows' \<and> prefix (hs_rows s) rows'"
  shows "keeps sha256 s (s\<lparr>hs_rows := rows'\<rparr>)"
  using assms stored_ok_grow [of sha256 s rows'] by (auto simp: keeps_def stored_ok_def [of _ s])

lemma keeps_tail:
  assumes "list_ex (\<lambda>e. tail_of x = tail_of e) (hs_rows s)" "ta_Number t = al_Number x" "ta_Digest t = to_lower (al_Hash x)"
  shows "keeps sha256 s (snd (UpdateTail fate t s))"
proof -
  have "keeps sha256 s (s\<lparr>hs_state := map_option (\<lambda>st. st\<lparr>as_Tail := tail_of x\<rparr>) (hs_state s)\<rparr>)"
    using assms(1) by (auto simp: keeps_def stored_ok_def pinned_id_def list_ex_iff split: option.splits)
  then show ?thesis
    using assms(2,3) by (simp add: UpdateTail_def hs.io_store_G tail_of_def)
qed

lemma AppendLogEntries_cases:
  obtains (same) "snd (AppendLogEntries fate es s) = s"
  | (grown) rows' where "appendRows es (hs_rows s) = Inr rows'" "snd (AppendLogEntries fate es s) = s\<lparr>hs_rows := rows'\<rparr>"
proof (cases "es = [] \<or> io_void fate")
  case False
  then show ?thesis
    using same grown by (cases "appendRows es (hs_rows s)") (simp_all add: AppendLogEntries_def)
qed (use same in \<open>auto simp: AppendLogEntries_def\<close>)

lemma AppendLogEntries_ok:
  assumes "AppendLogEntries fate es s = (None, s')"
  shows "appendRows es (hs_rows s) = Inr (hs_rows s') \<and> hs_state s' = hs_state s"
  using assms by (cases fate) (auto simp: AppendLogEntries_def split: if_splits sum.splits)

lemma VerifySegment_result_tail:
  "es \<noteq> [] \<Longrightarrow> sr_OK (VerifySegment sha256 es (Some t) u) \<Longrightarrow> sr_Tail (VerifySegment sha256 es (Some t) u) = tail_of (last es)"
  by (auto simp: VerifySegment_def Let_def close_segment_def tail_of_def split: sum.splits if_splits)

text \<open>The segment a cycle is about to persist continues the stored entry its tail names.\<close>

lemma fresh_continues:
  assumes "stored_ok sha256 s" "hs_state s = Some st" "fresh \<noteq> []"
    and "sr_OK (VerifySegment sha256 fresh (Some (as_Tail st)) u)"
  shows "\<exists>r\<in>set (hs_rows s). as_Tail st = tail_of r \<and> continues sha256 (al_Number r) (digest_of r) fresh"
proof -
  obtain r where r: "r \<in> set (hs_rows s)" "as_Tail st = tail_of r"
    using assms(1,2) by (auto simp: stored_ok_def list_ex_iff)
  moreover have "decodeDigest (to_lower (al_Hash r)) = decodeDigest (al_Hash r)"
    by (rule decodeDigest_fold) simp
  ultimately have "continues sha256 (al_Number r) (digest_of r) fresh"
    using assms(3,4) by (auto simp: VerifySegment_tail tail_of_def digest_of_def)
  then show ?thesis using r by blast
qed

lemma persist_keeps:
  assumes "hs_state s = Some st" "fresh \<noteq> []" "sr_OK (VerifySegment sha256 fresh (Some (as_Tail st)) u)"
  shows "keeps sha256 s (snd (persist cy fresh (sr_Tail (VerifySegment sha256 fresh (Some (as_Tail st)) u)) s)) \<and>
    (stored_ok sha256 s \<longrightarrow> fst (persist cy fresh (sr_Tail (VerifySegment sha256 fresh (Some (as_Tail st)) u)) s) = None \<longrightarrow>
     list_all (\<lambda>e. normalizeEntry e \<in> set (hs_rows (snd (persist cy fresh (sr_Tail (VerifySegment sha256 fresh (Some (as_Tail st)) u)) s)))) fresh)"
    (is "?K \<and> ?S")
proof (cases "stored_ok sha256 s")
  case True
  obtain r where r: "r \<in> set (hs_rows s)" "continues sha256 (al_Number r) (digest_of r) fresh"
    using fresh_continues [OF True assms] by blast
  have ok: "rows_ok sha256 (hs_rows s)"
    using True by (simp add: stored_ok_def)
  note app = appendRows_continues [OF ok r]
  obtain e s1 where a: "AppendLogEntries (cy_append cy) fresh s = (e, s1)"
    by fastforce
  have k1: "keeps sha256 s s1"
    by (rule AppendLogEntries_cases [of "cy_append cy" fresh s]) (use a app in \<open>auto intro!: keeps_grow\<close>)
  note tl = VerifySegment_result_tail [OF assms(2,3)]
  show ?thesis
  proof (cases "writeSinks (cy_sinks cy) = None \<and> e = None")
    case False
    then show ?thesis
      using k1 a by (auto simp: persist_def split: option.splits)
  next
    case both: True
    have rows: "appendRows fresh (hs_rows s) = Inr (hs_rows s1)"
      using AppendLogEntries_ok [of "cy_append cy" fresh s s1] a both by simp
    have all: "list_all (\<lambda>e. normalizeEntry e \<in> set (hs_rows s1)) fresh"
      using app [OF rows] by simp
    then have "normalizeEntry (last fresh) \<in> set (hs_rows s1)"
      using assms(2) by (simp add: list_all_iff)
    then have "list_ex (\<lambda>e. tail_of (last fresh) = tail_of e) (hs_rows s1)"
      unfolding list_ex_iff by (rule rev_bexI) simp
    then have k2: "keeps sha256 s1 (snd (UpdateTail (cy_tail cy) (tail_of (last fresh)) s1))"
      by (intro keeps_tail [where x = "last fresh"]) (simp_all add: tail_of_def)
    have same: "hs_rows (snd (UpdateTail (cy_tail cy) (tail_of (last fresh)) s1)) = hs_rows s1"
      by (cases "cy_tail cy") (simp_all add: UpdateTail_def)
    obtain e2 s2 where u: "UpdateTail (cy_tail cy) (tail_of (last fresh)) s1 = (e2, s2)"
      by fastforce
    then have p: "persist cy fresh (tail_of (last fresh)) s = (map_option TailFailed e2, s2)"
      using a both by (auto simp: persist_def split: option.splits)
    show ?thesis
      unfolding tl p using keeps_trans [OF k1 k2] same all u by simp
  qed
next
  case False
  then show ?thesis by (simp add: keeps_def)
qed

lemma fetchFresh_ok:
  assumes "fetchFresh cy s = Inr (st, info, resp, fresh)"
  shows "hs_state s = Some st \<and> cy_fetch cy = Inr resp \<and> trimToTail (lr_Entries resp) (as_Tail st) = Inr (fresh, True) \<and>
    equal_fold (trim_space (di_Serial info)) (trim_space (as_DeviceSerial st))"
  using assms by (auto simp: fetchFresh_def LoadAuditState_def split: sum.splits option.splits if_splits prod.splits)

text \<open>How a cycle can end: without effect, with nothing new to store, or by storing.\<close>

lemma collectLocked_cases:
  obtains (stop) err where "collectLocked sha256 cy s = (Inl err, s, None)"
  | (idle) st info resp res where "fetchFresh cy s = Inr (st, info, resp, [])"
      "collectLocked sha256 cy s = (Inr res, s, map_option al_Number (if lr_Entries resp = [] then None else Some (last (lr_Entries resp))))"
  | (storing) st info resp fresh u err s' where "fetchFresh cy s = Inr (st, info, resp, fresh)" "fresh \<noteq> []"
      "sr_OK (VerifySegment sha256 fresh (Some (as_Tail st)) u)"
      "persist cy fresh (tail_of (last fresh)) s = (err, s')"
      "fst (snd (collectLocked sha256 cy s)) = s'"
      "snd (snd (collectLocked sha256 cy s)) =
         (if err = None \<and> lr_Entries resp \<noteq> [] then Some (al_Number (last (lr_Entries resp))) else None)"
      "case err of Some e \<Rightarrow> fst (collectLocked sha256 cy s) = Inl e | None \<Rightarrow> \<exists>res. fst (collectLocked sha256 cy s) = Inr res"
proof (cases "fetchFresh cy s")
  case (Inl err)
  then show ?thesis by (intro stop) (simp add: collectLocked_def)
next
  case (Inr x)
  obtain st info resp fresh where x: "x = (st, info, resp, fresh)" by (metis prod.exhaust)
  define u where "u = \<lparr>un_Boots = lr_UnloggedBoots resp, un_Authentications = lr_UnloggedAuthentications resp\<rparr>"
  show ?thesis
  proof (cases "sr_OK (VerifySegment sha256 fresh (Some (as_Tail st)) u)")
    case False
    then show ?thesis by (intro stop) (simp add: collectLocked_def Inr x u_def [symmetric] SegmentResult_Err_def)
  next
    case ok: True
    show ?thesis
    proof (cases "fresh = []")
      case True
      then show ?thesis
        using ok by (intro idle) (auto simp: collectLocked_def Inr x u_def [symmetric] SegmentResult_Err_def)
    next
      case False
      obtain err s' where p: "persist cy fresh (tail_of (last fresh)) s = (err, s')" by fastforce
      note tl = VerifySegment_result_tail [OF False ok]
      show ?thesis
        by (rule storing [OF _ False ok p]; cases err)
          (simp_all add: collectLocked_def Inr x u_def [symmetric] SegmentResult_Err_def ok False p tl)
    qed
  qed
qed

lemma collectLocked_keeps: "keeps sha256 s (fst (snd (collectLocked sha256 cy s)))"
proof (cases rule: collectLocked_cases [of sha256 cy s])
  case (storing st info resp fresh u err s')
  then show ?thesis
    using persist_keeps [of s st fresh sha256 u cy] fetchFresh_ok [OF storing(1)]
    by (simp add: VerifySegment_result_tail)
qed simp_all

lemma trimLoop_split:
  assumes "trimLoop es t = Inr (fresh, True)"
  shows "\<exists>overlap. es = overlap @ fresh \<and>
    list_all (\<lambda>e. al_Number e = ta_Number t \<and> equal_fold (al_Hash e) (ta_Digest t) \<or> \<not> isForward (ta_Number t) (al_Number e)) overlap"
  using assms
proof (induction es)
  case (Cons e es)
  consider "al_Number e = ta_Number t" | "al_Number e \<noteq> ta_Number t" "isForward (ta_Number t) (al_Number e)"
    | "al_Number e \<noteq> ta_Number t" "\<not> isForward (ta_Number t) (al_Number e)" by blast
  then show ?case
  proof cases
    case 1
    then show ?thesis using Cons.prems by (intro exI [of _ "[e]"]) (auto split: if_splits)
  next
    case 2
    then show ?thesis using Cons.prems by (intro exI [of _ "[]"]) simp
  next
    case 3
    then obtain o' where "es = o' @ fresh"
      "list_all (\<lambda>e. al_Number e = ta_Number t \<and> equal_fold (al_Hash e) (ta_Digest t) \<or> \<not> isForward (ta_Number t) (al_Number e)) o'"
      using Cons by auto
    then show ?thesis using 3 by (intro exI [of _ "e # o'"]) simp
  qed
qed simp

lemma acknowledged_spec:
  assumes "stored_ok sha256 s" "hs_state s = Some st" "cy_fetch cy = Inr resp"
    and "collectLocked sha256 cy s = (r, s', Some n)" "e \<in> set (lr_Entries resp)"
  shows "n = al_Number (last (lr_Entries resp)) \<and>
    (normalizeEntry e \<in> set (hs_rows s') \<or> \<not> isForward (ta_Number (as_Tail st)) (al_Number e) \<or>
     al_Number e = ta_Number (as_Tail st) \<and> equal_fold (al_Hash e) (ta_Digest (as_Tail st)))"
proof -
  have overlap: "e \<in> set fresh \<or> \<not> isForward (ta_Number (as_Tail st)) (al_Number e) \<or>
     al_Number e = ta_Number (as_Tail st) \<and> equal_fold (al_Hash e) (ta_Digest (as_Tail st))"
    if "trimToTail (lr_Entries resp) (as_Tail st) = Inr (fresh, True)" for fresh
    using that assms(5) trimLoop_split [of "lr_Entries resp" "as_Tail st" fresh]
    by (auto simp: trimToTail_def list_all_iff split: if_splits)
  show ?thesis
  proof (cases rule: collectLocked_cases [of sha256 cy s])
    case (stop err)
    with assms(4) show ?thesis by simp
  next
    case (idle st' info resp' res)
    then have "st' = st" "resp' = resp" "trimToTail (lr_Entries resp) (as_Tail st) = Inr ([], True)"
      using fetchFresh_ok [OF idle(1)] assms(2,3) by simp_all
    then show ?thesis
      using overlap [of "[]"] idle(2) assms(4) by (auto split: if_splits)
  next
    case (storing st' info resp' fresh u err t)
    have same: "st' = st" "resp' = resp" and trim: "trimToTail (lr_Entries resp) (as_Tail st) = Inr (fresh, True)"
      using fetchFresh_ok [OF storing(1)] assms(2,3) by simp_all
    have "err = None" "n = al_Number (last (lr_Entries resp))" "t = s'"
      using storing(5,6) assms(4) same by (simp_all split: if_splits)
    moreover have "list_all (\<lambda>e. normalizeEntry e \<in> set (hs_rows t)) fresh" if "err = None"
      using persist_keeps [OF assms(2) storing(2) storing(3) [unfolded same], of cy] assms(1) storing(4) that
        VerifySegment_result_tail [OF storing(2) storing(3) [unfolded same]] by simp
    ultimately show ?thesis
      using overlap [OF trim] by (auto simp: list_all_iff)
  qed
qed

section \<open>Commissioning keeps the stored log\<close>

lemma checkReset_ok:
  assumes "checkReset sha256 cm s = Inr (info, es, st)"
  shows "hs_state s = None \<and> es \<noteq> [] \<and> IsBootSentinel (hd es) \<and> from_genesis sha256 es \<and>
    (\<exists>resp. cm_fetch cm = Inr resp \<and> es = lr_Entries resp \<and> lr_UnloggedBoots resp = 0 \<and> lr_UnloggedAuthentications resp = 0) \<and>
    cm_info cm = Inr info \<and>
    st = \<lparr>as_DeviceSerial = di_Serial info, as_Anchor = to_lower (al_Hash (hd es)), as_ProvisionedAt = cm_now cm,
          as_Tail = tail_of (last es)\<rparr>"
  using assms
  by (auto simp: checkReset_def LoadAuditState_def Let_def CheckDeviceInitEntry_def VerifyChainFromGenesis_def
      VerifySegment_genesis tail_of_def hd_conv_nth word_neq_0_conv [symmetric]
      split: sum.splits option.splits if_splits list.splits)

lemma first_row:
  assumes "rows_ok sha256 rows" "e \<in> set rows" "al_Number e = 1"
  shows "rows \<noteq> []" "e = hd rows"
proof -
  obtain i where i: "i < length rows" "e = rows ! i"
    using assms(2) by (auto simp: in_set_conv_nth)
  then show "rows \<noteq> []" by auto
  have "i = 0"
    using rows_number(1) [OF assms(1) i(1)] assms(3) i(2) by simp
  then show "e = hd rows"
    using i \<open>rows \<noteq> []\<close> by (simp add: hd_conv_nth)
qed

lemma SaveAuditState_cases:
  assumes "hs_state s = None"
  shows "snd (SaveAuditState l w st s) = s \<or>
    snd (SaveAuditState l w st s) = s\<lparr>hs_state := Some (st\<lparr>as_Anchor := to_lower (as_Anchor st),
       as_Tail := \<lparr>ta_Number = ta_Number (as_Tail st), ta_Digest = to_lower (ta_Digest (as_Tail st))\<rparr>\<rparr>)\<rparr>"
  using assms by (cases l; cases w) (simp_all add: SaveAuditState_def LoadAuditState_def)

lemma SaveAuditState_ok:
  assumes "hs_state s = None" "SaveAuditState l w st s = (None, s')"
  shows "s' = s\<lparr>hs_state := Some (st\<lparr>as_Anchor := to_lower (as_Anchor st),
       as_Tail := \<lparr>ta_Number = ta_Number (as_Tail st), ta_Digest = to_lower (ta_Digest (as_Tail st))\<rparr>\<rparr>)\<rparr>"
  using assms by (cases l; cases w) (auto simp: SaveAuditState_def LoadAuditState_def split: if_splits)

lemma pinDevice_keeps:
  assumes "checkReset sha256 cm s = Inr (info, es, st)"
  shows "keeps sha256 s (snd (pinDevice cm es st s))"
proof (cases "stored_ok sha256 s")
  case True
  then have ok: "rows_ok sha256 (hs_rows s)"
    by (simp add: stored_ok_def)
  note cr = checkReset_ok [OF assms]
  note app = appendRows_genesis [OF ok, of es]
  obtain e s1 where a: "AppendLogEntries (cm_append cm) es s = (e, s1)"
    by fastforce
  have k1: "keeps sha256 s s1" and none: "hs_state s1 = None"
    by (rule AppendLogEntries_cases [of "cm_append cm" es s]; use a app cr in \<open>auto intro!: keeps_grow\<close>)+
  show ?thesis
  proof (cases "writeSinks (cm_sinks cm) = None \<and> e = None")
    case False
    then show ?thesis using k1 a by (auto simp: pinDevice_def split: option.splits)
  next
    case both: True
    have ok1: "rows_ok sha256 (hs_rows s1)" and all: "list_all (\<lambda>e. normalizeEntry e \<in> set (hs_rows s1)) es"
      using app [of "hs_rows s1"] AppendLogEntries_ok [of "cm_append cm" es s s1] a both cr by auto
    have "normalizeEntry (hd es) \<in> set (hs_rows s1)" "normalizeEntry (last es) \<in> set (hs_rows s1)"
      using all cr by (simp_all add: list_all_iff)
    moreover have "al_Number (normalizeEntry (hd es)) = 1"
      using cr by (simp add: IsBootSentinel_def)
    ultimately have first: "hs_rows s1 \<noteq> []" "hd (hs_rows s1) = normalizeEntry (hd es)"
      and tl: "list_ex (\<lambda>e. tail_of (last es) = tail_of e) (hs_rows s1)"
      using first_row [OF ok1, of "normalizeEntry (hd es)"] unfolding list_ex_iff by (auto intro!: rev_bexI)
    have "keeps sha256 s1 (snd (SaveAuditState (cm_reload cm) (cm_save cm) st s1))"
      using SaveAuditState_cases [OF none, of "cm_reload cm" "cm_save cm" st]
      by (elim disjE) (use cr ok1 first tl none in \<open>simp_all add: keeps_def stored_ok_def tail_of_def [of "last es"]\<close>)
    then show ?thesis
      using keeps_trans [OF k1] a both by (auto simp: pinDevice_def split: option.splits prod.splits)
  qed
qed (simp add: keeps_def)

section \<open>Runs\<close>

datatype hsm_op = OpCollect Drain | OpProvision Commission

fun hsm_step :: "hash_fn \<Rightarrow> HsmStore \<times> Event list \<Rightarrow> hsm_op \<Rightarrow> HsmStore \<times> Event list" where
  "hsm_step sha256 (s, log) (OpCollect dr) =
     (case Collect sha256 dr s of None \<Rightarrow> (s, log) | Some (_, s', _) \<Rightarrow> (s', log))"
| "hsm_step sha256 (s, log) (OpProvision cm) =
     (case Provision sha256 cm s log of None \<Rightarrow> (s, log) | Some (_, s', log') \<Rightarrow> (s', log'))"

definition empty_store :: HsmStore where
  "empty_store = \<lparr>hs_state = None, hs_rows = [], hs_lease = None\<rparr>"

text \<open>The other processes that work between two attempts at the lease keep the stored log too.\<close>

fun op_polls :: "hsm_op \<Rightarrow> Poll list" where
  "op_polls (OpCollect dr) = dr_polls dr"
| "op_polls (OpProvision cm) = dr_polls (cm_drain cm)"

definition others_keep :: "hash_fn \<Rightarrow> hsm_op \<Rightarrow> bool" where
  "others_keep sha256 x \<longleftrightarrow> list_all (\<lambda>p. \<forall>s. keeps sha256 s (po_others p s)) (op_polls x)"

lemma Collect_keeps:
  assumes "list_all (\<lambda>p. \<forall>s. keeps sha256 s (po_others p s)) (dr_polls dr)" "Collect sha256 dr s = Some (r, s', ack)"
  shows "keeps sha256 s s'"
  by (rule hs.Collect_G [OF assms(1) collectLocked_keeps assms(2)])

lemma Provision_keeps:
  assumes "list_all (\<lambda>p. \<forall>s. keeps sha256 s (po_others p s)) (dr_polls (cm_drain cm))"
    and "Provision sha256 cm s log = Some (r, s', log')"
  shows "keeps sha256 s s'"
proof (cases "checkReset sha256 cm s")
  case (Inr x)
  obtain info es st where x: "x = (info, es, st)" by (metis prod.exhaust)
  obtain e s1 where pin: "pinDevice cm es st s = (e, s1)" by fastforce
  have k1: "keeps sha256 s s1"
    using pinDevice_keeps [of sha256 cm s info es st] Inr x pin by simp
  have "keeps sha256 s1 s'"
    using assms(2) Inr x pin
    by (auto simp: Provision_def intro: Collect_keeps [OF assms(1)] split: option.splits sum.splits prod.splits)
  with k1 show ?thesis by (rule keeps_trans)
qed (use assms(2) in \<open>simp add: Provision_def\<close>)

lemma run_keeps:
  "list_all (others_keep sha256) ops \<Longrightarrow> keeps sha256 (fst w) (fst (foldl (hsm_step sha256) w ops))"
proof (induction ops arbitrary: w)
  case (Cons x ops)
  have "keeps sha256 (fst w) (fst (hsm_step sha256 w x))"
    using Cons.prems
    by (cases w; cases x) (auto simp: others_keep_def intro: Collect_keeps Provision_keeps split: option.splits prod.splits)
  moreover have "keeps sha256 (fst (hsm_step sha256 w x)) (fst (foldl (hsm_step sha256) w (x # ops)))"
    using Cons by simp
  ultimately show ?case by (rule keeps_trans)
qed simp

lemma LogEntries_rows: "rows_ok sha256 (hs_rows s) \<Longrightarrow> LogEntries s = hs_rows s"
  unfolding LogEntries_def
  by (rule sort_key_id_if_sorted) (auto simp: sorted_iff_nth_mono word_le_nat_alt rows_number)

lemma Provision_ok:
  assumes "Provision sha256 cm s log = Some (Inr res, s', log')"
  obtains info es st s1 e opts col ack where "checkReset sha256 cm s = Inr (info, es, st)"
    "pinDevice cm es st s = (None, s1)" "recordGenesis sha256 cm st log = (Inr e, log')"
    "forceAudit cm = Inr opts" "Collect sha256 (cm_drain cm) s1 = Some (Inr col, s', ack)"
    "res = \<lparr>pv_Device = info, pv_Anchor = as_Anchor st, pv_Options = opts, pv_Collected = cr_Collected col\<rparr>"
proof -
  obtain info es st where cr: "checkReset sha256 cm s = Inr (info, es, st)"
    using assms by (cases "checkReset sha256 cm s") (auto simp: Provision_def)
  obtain s1 where pin: "pinDevice cm es st s = (None, s1)"
    using assms cr by (auto simp: Provision_def split: option.splits prod.splits)
  obtain e log1 where rec: "recordGenesis sha256 cm st log = (Inr e, log1)"
    using assms cr pin by (auto simp: Provision_def split: sum.splits prod.splits)
  obtain opts where opts: "forceAudit cm = Inr opts"
    using assms cr pin rec by (auto simp: Provision_def split: sum.splits option.splits)
  show ?thesis
    using assms cr pin rec opts
    by (auto simp: Provision_def split: sum.splits option.splits prod.splits intro!: that [OF cr pin _ opts])
qed

lemma pinDevice_ok:
  assumes "checkReset sha256 cm s = Inr (info, es, st)" "pinDevice cm es st s = (None, s')"
  shows "map_option pinned_id (hs_state s') = Some (di_Serial info, as_Anchor st, cm_now cm)"
proof -
  obtain s0 where a: "AppendLogEntries (cm_append cm) es s = (None, s0)" "SaveAuditState (cm_reload cm) (cm_save cm) st s0 = (None, s')"
    using assms(2) by (auto simp: pinDevice_def split: option.splits prod.splits)
  have "hs_state s0 = None"
    using AppendLogEntries_ok [OF a(1)] checkReset_ok [OF assms(1)] by simp
  then show ?thesis
    using SaveAuditState_ok [OF _ a(2)] checkReset_ok [OF assms(1)] by (simp add: pinned_id_def)
qed

section \<open>The properties\<close>

text \<open>
  C5. Commissioning and collecting, in any order, with any answers of the device, any
  failing call and any well-behaved process in between, leave a stored log that passes
  the verification from the factory reset on, that fits the sixteen-bit entry numbers,
  and whose first digest is the pinned anchor.
\<close>

theorem stored_log_verifies:
  assumes "list_all (others_keep sha256) ops" "s = fst (foldl (hsm_step sha256) (empty_store, log) ops)"
  shows "stored_ok sha256 s \<and> sr_OK (VerifyChainFromGenesis sha256 (LogEntries s) \<lparr>un_Boots = 0, un_Authentications = 0\<rparr>) \<and>
    length (LogEntries s) \<le> 65535 \<and>
    (case hs_state s of None \<Rightarrow> True | Some st \<Rightarrow> LogEntries s \<noteq> [] \<and> as_Anchor st = al_Hash (hd (LogEntries s)))"
proof -
  have ok: "stored_ok sha256 s"
    using run_keeps [OF assms(1), of "(empty_store, log)"] assms(2)
    by (simp add: keeps_def stored_ok_def empty_store_def rows_ok_def from_genesis_def)
  then have rows: "rows_ok sha256 (hs_rows s)"
    by (simp add: stored_ok_def)
  have len: "length (hs_rows s) \<le> 65535"
    using rows_number(2) [OF rows, of 0] by (cases "hs_rows s = []") simp_all
  show ?thesis
    using ok len rows unfolding LogEntries_rows [OF rows]
    by (simp add: stored_ok_def rows_ok_def VerifyChainFromGenesis_def VerifySegment_genesis split: option.splits)
qed

text \<open>
  C20. From any point on, whatever happens, the stored log only grows at its end, and the
  pinned device, anchor and commissioning time never change.
\<close>

theorem history_kept:
  assumes "list_all (others_keep sha256) (ops @ ops')"
    and "w = foldl (hsm_step sha256) (empty_store, log) ops" "w' = foldl (hsm_step sha256) w ops'"
  shows "prefix (LogEntries (fst w)) (LogEntries (fst w')) \<and>
    (hs_state (fst w) = None \<or> map_option pinned_id (hs_state (fst w')) = map_option pinned_id (hs_state (fst w)))"
proof -
  have ok: "stored_ok sha256 (fst w)"
    using run_keeps [of sha256 ops "(empty_store, log)"] assms(1,2)
    by (simp add: keeps_def stored_ok_def empty_store_def rows_ok_def from_genesis_def)
  moreover have "keeps sha256 (fst w) (fst w')"
    using run_keeps [of sha256 ops' w] assms(1,3) by simp
  ultimately have k: "stored_ok sha256 (fst w')" "prefix (hs_rows (fst w)) (hs_rows (fst w'))"
    "hs_state (fst w) = None \<or> map_option pinned_id (hs_state (fst w')) = map_option pinned_id (hs_state (fst w))"
    by (simp_all add: keeps_def)
  then show ?thesis
    using ok by (simp add: LogEntries_rows [of sha256] stored_ok_def)
qed


text \<open>
  A cycle that meets any error has acknowledged nothing, and one that fails before
  the entries are handed to the store leaves the store as it was.
\<close>

theorem failed_cycle:
  assumes "collectLocked sha256 cy s = (Inl err, s', ack)"
  shows "ack = None \<and> (s' = s \<or> (\<exists>e. err = PersistFailed e) \<or> (\<exists>e. err = TailFailed e))"
proof (cases rule: collectLocked_cases [of sha256 cy s])
  case (storing st info resp fresh u x t)
  have err: "x = Some err"
    using storing(7) assms by (cases x) simp_all
  have "t = s'"
    using storing(5) assms by simp
  with storing(4) err show ?thesis
    using storing(6) assms by (auto simp: persist_def split: option.splits prod.splits)
qed (use assms in auto)

text \<open>
  C19. A device that was commissioned successfully had a fresh log beginning with the
  factory-reset entry, its anchor is pinned, the event log has gained one event that
  names the device and the anchor, and the options read back from it are sufficient.
\<close>

theorem commissioned:
  assumes "stored_ok sha256 s" "others_keep sha256 (OpProvision cm)"
    and "Provision sha256 cm s log = Some (Inr res, s', log')"
  shows "\<exists>resp st e. cm_fetch cm = Inr resp \<and> IsBootSentinel (hd (lr_Entries resp)) \<and>
    pv_Anchor res = to_lower (al_Hash (hd (lr_Entries resp))) \<and> as_Anchor st = pv_Anchor res \<and>
    hs_state s = None \<and>
    map_option pinned_id (hs_state s') = Some (di_Serial (pv_Device res), pv_Anchor res, cm_now cm) \<and>
    log' = log @ [e] \<and> ev_Action e = ''hsm.provision_audit'' \<and> ev_Target e = di_Serial (pv_Device res) \<and>
    ev_Detail e = GenesisDetail st \<and> Options_Verify (cm_walk_after cm) (pv_Options res) = None"
proof -
  obtain info es st s1 e opts col ack where cr: "checkReset sha256 cm s = Inr (info, es, st)"
    and pin: "pinDevice cm es st s = (None, s1)" and rec: "recordGenesis sha256 cm st log = (Inr e, log')"
    and opts: "forceAudit cm = Inr opts" and col: "Collect sha256 (cm_drain cm) s1 = Some (Inr col, s', ack)"
    and res: "res = \<lparr>pv_Device = info, pv_Anchor = as_Anchor st, pv_Options = opts, pv_Collected = cr_Collected col\<rparr>"
    by (rule Provision_ok [OF assms(3)])
  note c = checkReset_ok [OF cr]
  then obtain resp where resp: "cm_fetch cm = Inr resp" "es = lr_Entries resp" by blast
  have "keeps sha256 s1 s'"
    using Collect_keeps [OF _ col] assms(2) by (simp add: others_keep_def)
  moreover have "stored_ok sha256 s1"
    using pinDevice_keeps [OF cr] pin assms(1) by (simp add: keeps_def)
  ultimately have pinned: "map_option pinned_id (hs_state s') = Some (di_Serial info, as_Anchor st, cm_now cm)"
    using pinDevice_ok [OF cr pin] by (auto simp: keeps_def)
  have ev: "log' = log @ [e] \<and> ev_Action e = ''hsm.provision_audit'' \<and> ev_Target e = as_DeviceSerial st \<and> ev_Detail e = GenesisDetail st"
    using rec by (auto simp: recordGenesis_def AppendEvent_def Let_def Seal_def split: if_splits option.splits prod.splits)
  have "Options_Verify (cm_walk_after cm) opts = None"
    using opts by (auto simp: forceAudit_def split: sum.splits option.splits)
  then show ?thesis
    using c pinned ev resp by (intro exI [of _ resp] exI [of _ st] exI [of _ e]) (simp add: res)
qed

section \<open>The lease\<close>

text \<open>A step another process takes on the lease at a time \<open>t\<close>.\<close>

datatype lease_op = Acquiring io io time string int | Releasing io string

fun lease_step :: "HsmStore \<Rightarrow> lease_op \<Rightarrow> HsmStore" where
  "lease_step s (Acquiring u i t owner ttl) = snd (AcquireCollectionLease u i t owner ttl s)"
| "lease_step s (Releasing fate owner) = ReleaseCollectionLease fate owner s"

fun foreign :: "string \<Rightarrow> time \<Rightarrow> lease_op \<Rightarrow> bool" where
  "foreign owner expires (Acquiring _ _ t other _) \<longleftrightarrow> other \<noteq> owner \<and> t < expires"
| "foreign owner expires (Releasing _ other) \<longleftrightarrow> other \<noteq> owner"

lemma io_store_same [simp]: "io_store fate s s = s"
  by (cases fate) simp_all

lemma held_lease:
  assumes "hs_lease s = Some (owner, expires)" "foreign owner expires x"
  shows "lease_step s x = s"
  using assms by (cases x) (auto simp: AcquireCollectionLease_def ReleaseCollectionLease_def Let_def split: option.split)

lemma held_refused:
  assumes "hs_lease s = Some (owner, expires)" "other \<noteq> owner" "t < expires"
  shows "fst (AcquireCollectionLease u i t other ttl s) \<noteq> Inr True"
  using assms by (auto simp: AcquireCollectionLease_def Let_def split: option.split)

lemma held_leases:
  "hs_lease s = Some (owner, expires) \<Longrightarrow> list_all (foreign owner expires) xs \<Longrightarrow> foldl lease_step s xs = s"
  by (induction xs) (simp_all add: held_lease)

text \<open>
  C31. Once a process holds the collection lease, no sequence of attempts and releases by
  other processes before it expires frees it, and none of their attempts succeeds.
\<close>

theorem lease_exclusive:
  assumes "AcquireCollectionLease u i now owner ttl s = (Inr True, s')"
    and "list_all (foreign owner (now + ttl)) xs" "other \<noteq> owner" "t < now + ttl"
  shows "hs_lease (foldl lease_step s' xs) = Some (owner, now + ttl) \<and>
    fst (AcquireCollectionLease u' i' t other ttl' (foldl lease_step s' xs)) \<noteq> Inr True"
proof -
  have held: "hs_lease s' = Some (owner, now + ttl)"
    using assms(1) by (cases i) (auto simp: AcquireCollectionLease_def Let_def split: if_splits option.splits)
  show ?thesis
    using held held_refused [OF held assms(3,4)] by (simp add: held_leases [OF held assms(2)])
qed

lemma leaseLoop_undecided:
  "leaseLoop owner deadline ps s = None \<Longrightarrow> list_all (\<lambda>p. po_checked p \<le> deadline) ps"
  by (induction ps arbitrary: s) (auto split: prod.splits sum.splits bool.splits option.splits if_splits)

text \<open>
  C32. The wait for the lease ends: when the clock advances by the polling interval from
  one attempt to the next, 302 attempts decide it, whatever the other processes do.
\<close>

theorem lease_wait_ends:
  assumes "\<And>k. k < length polls \<Longrightarrow> start + int k * collectionLeasePoll \<le> po_checked (polls ! k)"
    and "302 \<le> length polls"
  shows "\<exists>r s'. acquireCollectionLease owner start polls s = Some (r, s')"
proof (rule ccontr)
  assume "\<not> ?thesis"
  then have "leaseLoop owner (start + collectionLeaseWait) polls s = None"
    by (cases "leaseLoop owner (start + collectionLeaseWait) polls s") (auto simp: acquireCollectionLease_def)
  then have "po_checked (polls ! 301) \<le> start + collectionLeaseWait"
    using leaseLoop_undecided [of owner _ polls s] assms(2) by (simp add: list_all_length)
  then show False
    using assms(1) [of 301] assms(2) by (simp add: collectionLeaseWait_def collectionLeasePoll_def)
qed

section \<open>The end of the numbers\<close>

lemma appendRows_conflict:
  assumes "from_genesis sha256 (r # rs)" "al_Number e = 1" "\<not> IsBootSentinel e"
  shows "appendRows (e # es) (r # rs) = Inl (DifferentContent 1 (to_lower (al_Hash r)) (to_lower (al_Hash e)))"
proof -
  have "IsBootSentinel r"
    using assms(1) by (simp add: from_genesis_def)
  then have r: "IsBootSentinel (normalizeEntry r)" "al_Number r = 1"
    by (simp, simp add: IsBootSentinel_def)
  then have "normalizeEntry r \<noteq> normalizeEntry e"
    using assms(3) by (metis normalizeEntry_digest(4))
  moreover have "r\<lparr>al_Number := 1, al_Hash := to_lower (al_Hash r)\<rparr> = normalizeEntry r"
    using r(2) by (cases r) (simp add: normalizeEntry_def)
  ultimately show ?thesis
    using r assms(2) by (simp add: Let_def)
qed

lemma AppendLogEntries_conflict:
  assumes "from_genesis sha256 (hs_rows s)" "hs_rows s \<noteq> []" "al_Number e = 1" "\<not> IsBootSentinel e"
  shows "\<exists>err. AppendLogEntries fate (e # es) s = (Some err, s)"
proof -
  obtain r rs where rows: "hs_rows s = r # rs"
    using assms(2) by (cases "hs_rows s") auto
  show ?thesis
    using appendRows_conflict [OF assms(1) [unfolded rows] assms(3,4), of es]
    by (cases fate) (auto simp: AppendLogEntries_def rows simp del: appendRows.simps)
qed


section \<open>A device from its commissioning on\<close>

definition demo_sha :: hash_fn where "demo_sha = (\<lambda>_. replicate 32 0)"

definition demo_record :: "nat \<Rightarrow> AuditLogEntry" where
  "demo_record n = (if n = 1 then Sentinel\<lparr>al_Hash := replicate 32 (CHR ''0'')\<rparr>
     else \<lparr>al_Number = word_of_nat n, al_Command = 0x00, al_Length = 0, al_SessionKey = 0xffff, al_TargetKey = 0,
           al_SecondKey = 0, al_Result = 0, al_Tick = 0, al_Hash = replicate 32 (CHR ''0'')\<rparr>)"

definition demo_rows :: "nat \<Rightarrow> AuditLogEntry list" where
  "demo_rows n = map demo_record [1..<Suc n]"

definition demo_info :: DeviceInfo where
  "demo_info = \<lparr>di_Serial = ''1'', di_Version = ''2.4.0'', di_PartNumber = '''', di_LogUsed = ''2/62''\<rparr>"

definition demo_cycle :: "AuditLogEntry list \<Rightarrow> Cycle" where
  "demo_cycle es = \<lparr>cy_load = Works, cy_info = Inr demo_info,
     cy_fetch = Inr \<lparr>lr_Entries = es, lr_UnloggedBoots = 0, lr_UnloggedAuthentications = 0\<rparr>,
     cy_sinks = [], cy_append = Works, cy_tail = Works\<rparr>"

definition demo_poll :: "time \<Rightarrow> Poll" where
  "demo_poll t = \<lparr>po_others = id, po_update = Works, po_insert = Works, po_now = t, po_ctx = None,
     po_checked = t, po_done = None\<rparr>"

definition demo_drain :: "AuditLogEntry list \<Rightarrow> Drain" where
  "demo_drain es = \<lparr>dr_owner = ''ca'', dr_start = 0, dr_polls = [demo_poll 0], dr_cycle = demo_cycle es, dr_release = Works\<rparr>"

definition demo_commission :: Commission where
  "demo_commission = \<lparr>cm_info = Inr demo_info, cm_load = Works, cm_auditor = True,
     cm_fetch = Inr \<lparr>lr_Entries = demo_rows 2, lr_UnloggedBoots = 0, lr_UnloggedAuthentications = 0\<rparr>,
     cm_now = 0, cm_sinks = [], cm_append = Works, cm_reload = Works, cm_save = Works, cm_actor = '''', cm_eventID = ''e'',
     cm_event = True, cm_consume = None, cm_before = Inr (Some demo_options), cm_walk = all_commands,
     cm_provision = (\<lambda>_. None), cm_after = Inr (Some demo_options), cm_walk_after = all_commands,
     cm_drain = demo_drain []\<rparr>"

definition demo_store :: "nat \<Rightarrow> HsmStore" where
  "demo_store n = \<lparr>hs_state = Some \<lparr>as_DeviceSerial = ''1'', as_Anchor = replicate 32 (CHR ''0''), as_ProvisionedAt = 0,
     as_Tail = tail_of (demo_record n)\<rparr>, hs_rows = demo_rows n, hs_lease = None\<rparr>"

lemma to_lower_zeros: "to_lower (replicate n (CHR ''0'')) = replicate n (CHR ''0'')"
proof -
  have "lower_char (CHR ''0'') = CHR ''0''" by code_simp
  then show ?thesis by (simp add: to_lower_def)
qed

lemma demo_record_simps:
  "al_Hash (demo_record n) = replicate 32 (CHR ''0'')" "al_Number (demo_record n) = word_of_nat n"
  by (simp_all add: demo_record_def Sentinel_def)

lemma demo_record_command: "AllCommands (al_Command (demo_record n)) \<noteq> None"
  by (simp add: demo_record_def Sentinel_def AllCommands_def)

lemma demo_record_digest:
  "decodable (demo_record n)" "digest_of (demo_record n) = replicate 16 0"
  "EntryDigest demo_sha e d = replicate 32 (CHR ''0'')"
  by (simp_all only: decodable_def digest_of_def demo_record_simps demo_digest sum.case EntryDigest_def ComputeEntryHash_def
      demo_sha_def take_replicate zero_digest) simp

lemma demo_record_normal: "normalizeEntry (demo_record n) = demo_record n"
  unfolding normalizeEntry_def demo_record_simps to_lower_zeros
  by (metis AuditLogEntry.surjective AuditLogEntry.update_convs(9) demo_record_simps(1))

lemma demo_rows_Suc: "demo_rows (Suc n) = demo_rows n @ [demo_record (Suc n)]"
  by (simp add: demo_rows_def)

lemma demo_rows_last:
  assumes "0 < n"
  shows "demo_rows n \<noteq> []" "last (demo_rows n) = demo_record n" "hd (demo_rows n) = demo_record 1"
proof -
  show "demo_rows n \<noteq> []" "last (demo_rows n) = demo_record n"
    using assms demo_rows_Suc [of "n - 1"] by simp_all
  have "[1..<Suc n] = 1 # [Suc 1..<Suc n]"
    using assms by (intro upt_conv_Cons) simp
  then show "hd (demo_rows n) = demo_record 1"
    unfolding demo_rows_def by (simp only: list.map list.sel)
qed

lemma demo_next:
  assumes "0 < n" "n < 65535"
  shows "nextNumber (word_of_nat n) = word_of_nat (Suc n)"
proof -
  have "unat (word_of_nat n :: u16) = n"
    using assms by (simp add: unat_of_nat)
  then have "(word_of_nat n :: u16) \<noteq> 0xffff"
    using assms(2) by auto
  then show ?thesis
    by (simp add: nextNumber_def add.commute)
qed

lemma demo_genesis: "n \<le> 65535 \<Longrightarrow> from_genesis demo_sha (demo_rows n)"
proof (induction n)
  case (Suc n)
  show ?case
  proof (cases "n = 0")
    case True
    then show ?thesis
      using demo_record_digest(1) [of 1]
      by (simp add: demo_rows_def from_genesis_def) (simp add: demo_record_def Sentinel_def IsBootSentinel_def)
  next
    case False
    then show ?thesis
      using Suc demo_rows_last [of n] demo_next [of n] demo_record_command [of "Suc n"]
      unfolding demo_rows_Suc from_genesis_snoc continues_Cons by (simp add: demo_record_simps demo_record_digest)
  qed
qed (simp add: demo_rows_def from_genesis_def)

lemma demo_rows_ok: "n \<le> 65535 \<Longrightarrow> rows_ok demo_sha (demo_rows n)"
proof -
  assume n: "n \<le> 65535"
  have "inj_on (\<lambda>k. word_of_nat k :: u16) {1..<Suc n}"
    using n by (auto simp: inj_on_def word_unat_eq_iff unat_of_nat)
  then have "distinct (map al_Number (demo_rows n))"
    by (simp add: demo_rows_def comp_def demo_record_simps distinct_map del: upt_Suc)
  then show ?thesis
    using demo_genesis [OF n] by (auto simp: rows_ok_def demo_rows_def list_all_iff demo_record_normal)
qed

lemma demo_store_ok: "0 < n \<Longrightarrow> n \<le> 65535 \<Longrightarrow> stored_ok demo_sha (demo_store n)"
  using demo_rows_last [of n] last_in_set [of "demo_rows n"] demo_rows_ok [of n]
  by (auto simp: stored_ok_def demo_store_def demo_record_simps list_ex_iff)

lemma demo_serial: "trim_space ''1'' = ''1''"
  by code_simp

lemma demo_owner: "(trim_space ''ca'' = '''') = False"
  by code_simp


lemma demo_others: "others_keep sha256 (OpCollect (demo_drain es))" "others_keep sha256 (OpProvision demo_commission)"
  by (simp_all add: others_keep_def demo_drain_def demo_commission_def demo_poll_def)

lemma demo_idle:
  "fst (collectLocked demo_sha (demo_cycle []) (demo_store 2\<lparr>hs_lease := l\<rparr>)) =
     Inr \<lparr>cr_Collected = 0, cr_Signatures = 0, cr_Tail = tail_of (demo_record 2), cr_LogUsed = ''2/62'',
          cr_Segment = VerifySegment demo_sha [] (Some (tail_of (demo_record 2))) \<lparr>un_Boots = 0, un_Authentications = 0\<rparr>\<rparr>"
  by (simp add: collectLocked_def fetchFresh_def LoadAuditState_def demo_store_def demo_cycle_def demo_info_def demo_serial
      trimToTail_def Let_def SegmentResult_Err_def VerifySegment_def)

lemma demo_rows_2: "demo_rows 2 = [demo_record 1, demo_record 2]"
  by (simp add: demo_rows_def numeral_2_eq_2)

lemma demo_append: "AppendLogEntries Works (demo_rows 2) empty_store = (None, empty_store\<lparr>hs_rows := demo_rows 2\<rparr>)"
  using demo_record_normal [of 1] demo_record_normal [of 2]
  by (simp add: AppendLogEntries_def demo_rows_2 empty_store_def demo_record_simps normalizeEntry_def)

lemma demo_reset:
  "checkReset demo_sha demo_commission empty_store = Inr (demo_info, demo_rows 2, the (hs_state (demo_store 2)))"
proof -
  have "IsBootSentinel (demo_record 1)"
    by (simp add: demo_record_def Sentinel_def IsBootSentinel_def)
  then have "CheckDeviceInitEntry (demo_rows 2) = None"
    by (simp add: CheckDeviceInitEntry_def demo_rows_2)
  then show ?thesis
    using demo_genesis [of 2] demo_rows_last [of 2]
    by (simp add: checkReset_def demo_commission_def demo_info_def LoadAuditState_def empty_store_def Let_def demo_store_def
        VerifyChainFromGenesis_def VerifySegment_genesis demo_record_simps to_lower_zeros tail_of_def)
qed

lemma demo_pin: "pinDevice demo_commission (demo_rows 2) (the (hs_state (demo_store 2))) empty_store = (None, demo_store 2)"
  using demo_append
  by (simp add: pinDevice_def demo_commission_def SaveAuditState_def LoadAuditState_def empty_store_def demo_store_def
      to_lower_zeros tail_of_def demo_record_simps)

lemma demo_collect: "\<exists>col s' ack. Collect demo_sha (demo_drain []) (demo_store 2) = Some (Inr col, s', ack)"
proof -
  have "acquireCollectionLease ''ca'' 0 [demo_poll 0] (demo_store 2) =
      Some (None, demo_store 2\<lparr>hs_lease := Some (''ca'', CollectionLeaseTTL)\<rparr>)"
    by (simp add: acquireCollectionLease_def demo_poll_def AcquireCollectionLease_def demo_owner demo_store_def)
  then show ?thesis
    using demo_idle [of "Some (''ca'', CollectionLeaseTTL)"]
    by (cases "collectLocked demo_sha (demo_cycle []) (demo_store 2\<lparr>hs_lease := Some (''ca'', CollectionLeaseTTL)\<rparr>)")
      (simp add: Collect_def demo_drain_def)
qed

lemma demo_provision: "\<exists>res s' log'. Provision demo_sha demo_commission empty_store [] = Some (Inr res, s', log')"
proof -
  have "\<exists>e log'. recordGenesis demo_sha demo_commission st [] = (Inr e, log')" for st
    by (simp add: recordGenesis_def demo_commission_def AppendEvent_def Let_def last_row_def)
  then obtain e log' where "recordGenesis demo_sha demo_commission (the (hs_state (demo_store 2))) [] = (Inr e, log')"
    by blast
  moreover have "forceAudit demo_commission = Inr (Some demo_options)"
    by (simp add: forceAudit_def demo_commission_def demo_options_ok)
  moreover have "cm_consume demo_commission = None" "cm_drain demo_commission = demo_drain []"
    by (simp_all add: demo_commission_def)
  ultimately show ?thesis
    using demo_collect by (auto simp: Provision_def demo_reset demo_pin)
qed

theorem commissioned_witness:
  "\<exists>res s' log' e. Provision demo_sha demo_commission empty_store [] = Some (Inr res, s', log') \<and> log' = [e] \<and>
     ev_Action e = ''hsm.provision_audit'' \<and> map_option pinned_id (hs_state s') = Some (di_Serial (pv_Device res), pv_Anchor res, 0)"
proof -
  obtain res s' log' where p: "Provision demo_sha demo_commission empty_store [] = Some (Inr res, s', log')"
    using demo_provision by blast
  have "stored_ok demo_sha empty_store"
    by (simp add: stored_ok_def empty_store_def rows_ok_def from_genesis_def)
  from commissioned [OF this demo_others(2) p] show ?thesis
    using p by (auto simp: demo_commission_def)
qed

theorem stored_log_verifies_witness:
  "stored_ok demo_sha (fst (foldl (hsm_step demo_sha) (empty_store, []) [OpProvision demo_commission, OpCollect (demo_drain [])]))"
  using stored_log_verifies [of demo_sha "[OpProvision demo_commission, OpCollect (demo_drain [])]" _ "[]", OF _ refl]
  by (simp add: demo_others)

theorem history_kept_witness:
  "prefix (LogEntries (fst (foldl (hsm_step demo_sha) (empty_store, []) [OpProvision demo_commission])))
     (LogEntries (fst (foldl (hsm_step demo_sha) (foldl (hsm_step demo_sha) (empty_store, []) [OpProvision demo_commission])
        [OpCollect (demo_drain [])])))"
  using history_kept [of demo_sha "[OpProvision demo_commission]" "[OpCollect (demo_drain [])]" _ "[]", OF _ refl refl]
  by (simp add: demo_others)

lemma demo_segment:
  "sr_OK (VerifySegment demo_sha [demo_record 3] (Some (tail_of (demo_record 2))) \<lparr>un_Boots = 0, un_Authentications = 0\<rparr>)"
  using demo_record_command [of 3]
  by (simp add: VerifySegment_tail continues_Cons demo_record_simps demo_record_digest tail_of_def nextNumber_def
      to_lower_zeros demo_digest)

lemma demo_fetch:
  "fetchFresh (demo_cycle [demo_record 2, demo_record 3]) (demo_store 2) = Inr (the (hs_state (demo_store 2)), demo_info,
     \<lparr>lr_Entries = [demo_record 2, demo_record 3], lr_UnloggedBoots = 0, lr_UnloggedAuthentications = 0\<rparr>, [demo_record 3])"
  by (simp add: fetchFresh_def LoadAuditState_def demo_store_def demo_cycle_def demo_info_def demo_serial trimToTail_def
      tail_of_def demo_record_simps)

lemma demo_persist: "\<exists>s'. persist (demo_cycle es) [demo_record 3] t (demo_store 2) = (None, s')"
  by (simp add: persist_def demo_cycle_def AppendLogEntries_def UpdateTail_def demo_store_def demo_rows_2 demo_record_simps)

lemma demo_storing:
  "\<exists>r s'. collectLocked demo_sha (demo_cycle [demo_record 2, demo_record 3]) (demo_store 2) = (r, s', Some 3)"
proof -
  obtain s' where p: "persist (demo_cycle [demo_record 2, demo_record 3]) [demo_record 3]
      (sr_Tail (VerifySegment demo_sha [demo_record 3] (Some (tail_of (demo_record 2))) \<lparr>un_Boots = 0, un_Authentications = 0\<rparr>))
      (demo_store 2) = (None, s')"
    using demo_persist by blast
  have "as_Tail (the (hs_state (demo_store 2))) = tail_of (demo_record 2)"
    by (simp add: demo_store_def)
  with p demo_segment show ?thesis
    by (simp add: collectLocked_def demo_fetch SegmentResult_Err_def demo_record_simps Let_def)
qed


theorem failed_cycle_witness: "snd (snd (collectLocked demo_sha (demo_cycle []) empty_store)) = None"
proof -
  have "collectLocked demo_sha (demo_cycle []) empty_store = (Inl NotProvisioned, empty_store, None)"
    by (simp add: collectLocked_def fetchFresh_def LoadAuditState_def demo_cycle_def empty_store_def)
  from failed_cycle [OF this] this show ?thesis by simp
qed

theorem lease_exclusive_witness:
  "hs_lease (foldl lease_step (empty_store\<lparr>hs_lease := Some (''ca'', 60)\<rparr>) [Acquiring Works Works 10 ''cb'' 60, Releasing Works ''cb'']) =
     Some (''ca'', 60)"
proof -
  have "AcquireCollectionLease Works Works 0 ''ca'' 60 empty_store = (Inr True, empty_store\<lparr>hs_lease := Some (''ca'', 60)\<rparr>)"
    by (simp add: AcquireCollectionLease_def demo_owner empty_store_def)
  from lease_exclusive [OF this, of "[Acquiring Works Works 10 ''cb'' 60, Releasing Works ''cb'']" "''cb''" 20] show ?thesis
    by simp
qed

theorem lease_wait_ends_witness:
  "\<exists>r s'. acquireCollectionLease ''cb'' 0 (map (\<lambda>k. demo_poll (int k * collectionLeasePoll)) [0..<302])
     (empty_store\<lparr>hs_lease := Some (''ca'', 60000000000)\<rparr>) = Some (r, s')"
  by (rule lease_wait_ends) (simp_all add: demo_poll_def)

end
