(* ===== verification/FF1_Cipher.thy ===== *)
theory FF1_Cipher
  imports Secsy_Prelude "HOL-Library.List_Lexorder"
begin

text \<open>
  Format-preserving encryption: the FF1 cipher (\<^verbatim>\<open>server/internal/fpe/ff1.go\<close>) and the
  alphabets that turn text into numerals (\<^verbatim>\<open>server/internal/fpe/alphabet.go\<close>).

  The AES block function is an argument; \<^verbatim>\<open>big.Int\<close> values are natural numbers, the one
  that may become negative is an integer. Text is the sequence of its code points.

  Shown: decryption inverts encryption for every block function, key, tweak and length;
  the result has the length of the input and numerals in range; the length check admits
  exactly the domains of at least a million values; the input of every round fills whole
  blocks and never loses a digit of the number it carries; and an alphabet maps between
  text and numerals without loss.
\<close>

section \<open>Parameters and numerals\<close>

definition MinRadix :: int where "MinRadix = 2"
definition MaxRadix :: int where "MaxRadix = 65536"
definition feistelRounds :: nat where "feistelRounds = 10"
definition minDomain :: nat where "minDomain = 1000000"

record FF1 =
  ff_block :: "byte list \<Rightarrow> byte list"
  ff_radix :: int

definition radixBig :: "FF1 \<Rightarrow> nat" where
  "radixBig f = nat (ff_radix f)"

text \<open>Encrypting one block writes sixteen bytes into the destination buffer.\<close>

definition block_Encrypt :: "FF1 \<Rightarrow> byte list \<Rightarrow> byte list" where
  "block_Encrypt f src = take 16 (ff_block f src @ replicate 16 0)"

datatype fpe_error =
    RadixOutOfRange int | InvalidKey string | TooFewNumerals | TooManyNumerals nat
  | BelowMinimum nat nat int | NumeralOutOfRange u16 int | NoReturn

text \<open>The key schedule of AES is the argument \<open>aes\<close>: a block function, or an error for a key of a wrong size.\<close>

definition NewFF1 ::
  "(byte list \<Rightarrow> (string, byte list \<Rightarrow> byte list) result) \<Rightarrow> byte list \<Rightarrow> int \<Rightarrow> (fpe_error, FF1) result" where
  "NewFF1 aes key radix =
     (if radix < MinRadix \<or> radix > MaxRadix then Inl (RadixOutOfRange radix)
      else case aes key of
             Inl err \<Rightarrow> Inl (InvalidKey err)
           | Inr block \<Rightarrow> Inr \<lparr>ff_block = block, ff_radix = radix\<rparr>)"

partial_function (option) minLenLoop :: "nat \<Rightarrow> int \<Rightarrow> int \<Rightarrow> nat option" where
  "minLenLoop n count step = (if count < int minDomain then minLenLoop (n + 1) (count * step) step else Some n)"

text \<open>None when the loop does not end.\<close>

definition MinLen :: "int \<Rightarrow> nat option" where
  "MinLen radix = minLenLoop 2 (radix ^ 2) radix"

definition validateLen :: "FF1 \<Rightarrow> nat \<Rightarrow> fpe_error option" where
  "validateLen f n =
     (if n < 2 then Some TooFewNumerals
      else if n > 4294967295 then Some (TooManyNumerals n)
      else case MinLen (ff_radix f) of
             None \<Rightarrow> Some NoReturn
           | Some minLen \<Rightarrow> if n < minLen then Some (BelowMinimum n minLen (ff_radix f)) else None)"

definition numeralValue :: "u16 list \<Rightarrow> nat \<Rightarrow> nat" where
  "numeralValue x radix = foldl (\<lambda>acc d. acc * radix + unat d) 0 x"

fun numeralLoop :: "nat \<Rightarrow> nat \<Rightarrow> nat \<Rightarrow> u16 list \<Rightarrow> u16 list" where
  "numeralLoop 0 r tmp out = out"
| "numeralLoop (Suc j) r tmp out = numeralLoop j r (tmp div r) (out[j := word_of_nat (tmp mod r)])"

definition numeralString :: "nat \<Rightarrow> nat \<Rightarrow> nat \<Rightarrow> u16 list" where
  "numeralString v radix m = numeralLoop m radix v (replicate m 0)"

text \<open>\<^verbatim>\<open>big.Int.Bytes\<close>, \<^verbatim>\<open>big.Int.SetBytes\<close> and \<^verbatim>\<open>big.Int.BitLen\<close>.\<close>

fun big_bytes :: "nat \<Rightarrow> byte list" where
  "big_bytes n = (if n = 0 then [] else big_bytes (n div 256) @ [word_of_nat n])"

fun bit_len :: "nat \<Rightarrow> nat" where
  "bit_len n = (if n = 0 then 0 else Suc (bit_len (n div 2)))"

declare big_bytes.simps [simp del] bit_len.simps [simp del]

definition appendUintBytes :: "byte list \<Rightarrow> nat \<Rightarrow> nat \<Rightarrow> byte list" where
  "appendUintBytes dst v width =
     (let raw = big_bytes v;
          raw = (if length raw > width then drop (length raw - width) raw else raw)
      in dst @ replicate (width - length raw) 0 @ raw)"

section \<open>The round function\<close>

text \<open>The input is fed block by block; it always fills whole blocks (shown below for the rounds).\<close>

function feed :: "FF1 \<Rightarrow> byte list \<Rightarrow> byte list \<Rightarrow> byte list" where
  "feed f y chunk =
     (if chunk = [] then y else feed f (block_Encrypt f (map2 (XOR) y (take 16 chunk))) (drop 16 chunk))"
  by pat_completeness auto
termination
  by (relation "measure (\<lambda>(f, y, chunk). length chunk)") auto

declare feed.simps [simp del]

definition ff1_prf :: "FF1 \<Rightarrow> byte list \<Rightarrow> byte list \<Rightarrow> byte list" where
  "ff1_prf f p q = feed f (feed f (replicate 16 0) p) q"

function generateLoop :: "FF1 \<Rightarrow> byte list \<Rightarrow> nat \<Rightarrow> u32 \<Rightarrow> byte list \<Rightarrow> byte list" where
  "generateLoop f R d j s =
     (if length s < d
      then generateLoop f R d (j + 1) (s @ block_Encrypt f (map2 (XOR) R (replicate 12 0 @ be32 j)))
      else s)"
  by pat_completeness auto
termination
  by (relation "measure (\<lambda>(f, R, d, j, s). d - length s)") (auto simp: block_Encrypt_def)

declare generateLoop.simps [simp del]

definition generateS :: "FF1 \<Rightarrow> byte list \<Rightarrow> nat \<Rightarrow> byte list" where
  "generateS f R d = take d (generateLoop f R d 1 R)"

record Frame =
  fr_tweak :: "byte list"
  fr_P :: "byte list"
  fr_b :: nat
  fr_d :: nat
  fr_padLen :: nat
  fr_u :: nat
  fr_v :: nat

text \<open>\<open>%\<close> of Go: the remainder has the sign of the dividend.\<close>

definition go_rem :: "int \<Rightarrow> int \<Rightarrow> int" where
  "go_rem a b = sgn a * (\<bar>a\<bar> mod \<bar>b\<bar>)"

text \<open>What the rounds share.\<close>

definition feistelFrame :: "FF1 \<Rightarrow> byte list \<Rightarrow> nat \<Rightarrow> Frame" where
  "feistelFrame f tweak n =
     (let radix = ff_radix f; t = length tweak; u = n div 2; v = n - u;
          powV = radixBig f ^ v; minBits = bit_len (powV - 1);
          b = (minBits + 7) div 8; d = 4 * ((b + 3) div 4) + 4;
          P = [1, 2, 1, word_of_int (radix div 65536), word_of_int (radix div 256), word_of_int radix, 10, word_of_nat u] @
              be32 (word_of_nat n) @ be32 (word_of_nat t);
          padLen = nat (go_rem (go_rem (- int t - int b - 1) 16 + 16) 16)
      in \<lparr>fr_tweak = tweak, fr_P = P, fr_b = b, fr_d = d, fr_padLen = padLen, fr_u = u, fr_v = v\<rparr>)"

definition roundInput :: "FF1 \<Rightarrow> Frame \<Rightarrow> nat \<Rightarrow> u16 list \<Rightarrow> byte list" where
  "roundInput f fr i src =
     appendUintBytes (fr_tweak fr @ replicate (fr_padLen fr) 0 @ [word_of_nat i])
       (numeralValue src (radixBig f)) (fr_b fr)"

definition roundKey :: "FF1 \<Rightarrow> Frame \<Rightarrow> nat \<Rightarrow> u16 list \<Rightarrow> nat" where
  "roundKey f fr i src =
     (let q = roundInput f fr i src; R = ff1_prf f (fr_P fr) q in be_value (generateS f R (fr_d fr)))"

definition feistelRound :: "FF1 \<Rightarrow> Frame \<Rightarrow> bool \<Rightarrow> u16 list \<times> u16 list \<Rightarrow> nat \<Rightarrow> u16 list \<times> u16 list" where
  "feistelRound f fr encrypt AB round =
     (let (A, B) = AB;
          i = (if encrypt then round else feistelRounds - 1 - round);
          (src, dst) = (if encrypt then (B, A) else (A, B));
          y = roundKey f fr i src;
          m = (if i mod 2 \<noteq> 0 then fr_v fr else fr_u fr);
          radix = radixBig f; modulus = radix ^ m;
          c = int (numeralValue dst radix);
          c = (if encrypt then c + int y else c - int y);
          c = c mod int modulus;
          C = numeralString (nat c) radix m
      in if encrypt then (B, C) else (C, A))"

definition feistel :: "FF1 \<Rightarrow> byte list \<Rightarrow> u16 list \<Rightarrow> bool \<Rightarrow> (fpe_error, u16 list) result" where
  "feistel f tweak input encrypt =
     (case validateLen f (length input) of
        Some err \<Rightarrow> Inl err
      | None \<Rightarrow>
         (case find (\<lambda>d. uint d \<ge> ff_radix f) input of
            Some d \<Rightarrow> Inl (NumeralOutOfRange d (ff_radix f))
          | None \<Rightarrow>
             let fr = feistelFrame f tweak (length input);
                 A = take (fr_u fr) input; B = drop (fr_u fr) input;
                 (A, B) = foldl (feistelRound f fr encrypt) (A, B) [0..<feistelRounds]
             in Inr (A @ B)))"

definition FF1_Encrypt :: "FF1 \<Rightarrow> byte list \<Rightarrow> u16 list \<Rightarrow> (fpe_error, u16 list) result" where
  "FF1_Encrypt f tweak x = feistel f tweak x True"

definition FF1_Decrypt :: "FF1 \<Rightarrow> byte list \<Rightarrow> u16 list \<Rightarrow> (fpe_error, u16 list) result" where
  "FF1_Decrypt f tweak x = feistel f tweak x False"

section \<open>Alphabets\<close>

type_synonym rune = nat

definition runes :: "string \<Rightarrow> rune list" where
  "runes s = map of_char s"

record Alphabet =
  ab_name :: "rune list"
  ab_symbols :: "rune list"
  ab_index :: "rune \<rightharpoonup> u16"

definition Radix :: "Alphabet \<Rightarrow> int" where
  "Radix a = int (length (ab_symbols a))"

definition Contains :: "Alphabet \<Rightarrow> rune \<Rightarrow> bool" where
  "Contains a r \<longleftrightarrow> ab_index a r \<noteq> None"

definition IndexOf :: "Alphabet \<Rightarrow> rune \<Rightarrow> u16 option" where
  "IndexOf a r = ab_index a r"

text \<open>None is the panic of an index out of range.\<close>

definition SymbolAt :: "Alphabet \<Rightarrow> u16 \<Rightarrow> rune option" where
  "SymbolAt a v = (if unat v < length (ab_symbols a) then Some (ab_symbols a ! unat v) else None)"

datatype alphabet_error =
    NotInAlphabet rune "rune list" | AlphabetSize "rune list" nat | DuplicateSymbol "rune list" rune
  | EmptySpecification | UnknownAlphabet "rune list"

fun ToNumerals :: "Alphabet \<Rightarrow> rune list \<Rightarrow> (alphabet_error, u16 list) result" where
  "ToNumerals a [] = Inr []"
| "ToNumerals a (r # s) =
     (case ab_index a r of
        None \<Rightarrow> Inl (NotInAlphabet r (ab_name a))
      | Some v \<Rightarrow> (case ToNumerals a s of Inl err \<Rightarrow> Inl err | Inr out \<Rightarrow> Inr (v # out)))"

text \<open>None is the panic on a numeral out of range.\<close>

fun FromNumerals :: "Alphabet \<Rightarrow> u16 list \<Rightarrow> rune list option" where
  "FromNumerals a [] = Some []"
| "FromNumerals a (v # x) =
     (if unat v \<ge> length (ab_symbols a) then None
      else map_option (\<lambda>s. ab_symbols a ! unat v # s) (FromNumerals a x))"

fun indexLoop :: "rune list \<Rightarrow> nat \<Rightarrow> rune list \<Rightarrow> (rune \<rightharpoonup> u16) \<Rightarrow> (alphabet_error, rune \<rightharpoonup> u16) result" where
  "indexLoop name i [] idx = Inr idx"
| "indexLoop name i (r # rs) idx =
     (if idx r \<noteq> None then Inl (DuplicateSymbol name r)
      else indexLoop name (Suc i) rs (idx(r \<mapsto> word_of_nat i)))"

definition newAlphabet :: "rune list \<Rightarrow> rune list \<Rightarrow> (alphabet_error, Alphabet) result" where
  "newAlphabet name symbols =
     (if int (length symbols) < MinRadix \<or> int (length symbols) > MaxRadix
      then Inl (AlphabetSize name (length symbols))
      else case indexLoop name 0 symbols Map.empty of
             Inl err \<Rightarrow> Inl err
           | Inr idx \<Rightarrow> Inr \<lparr>ab_name = name, ab_symbols = symbols, ab_index = idx\<rparr>)"

definition namedAlphabets :: "(string \<times> string) list" where
  "namedAlphabets =
     [(''digits'', ''0123456789''),
      (''hex-lower'', ''0123456789abcdef''),
      (''hex-upper'', ''0123456789ABCDEF''),
      (''letters-lower'', ''abcdefghijklmnopqrstuvwxyz''),
      (''letters-upper'', ''ABCDEFGHIJKLMNOPQRSTUVWXYZ''),
      (''alphanumeric-lower'', ''0123456789abcdefghijklmnopqrstuvwxyz''),
      (''alphanumeric-upper'', ''0123456789ABCDEFGHIJKLMNOPQRSTUVWXYZ''),
      (''alphanumeric'', ''0123456789abcdefghijklmnopqrstuvwxyzABCDEFGHIJKLMNOPQRSTUVWXYZ''),
      (''base32'', ''ABCDEFGHIJKLMNOPQRSTUVWXYZ234567''),
      (''base32-hex'', ''0123456789ABCDEFGHIJKLMNOPQRSTUV'')]"

definition charsPrefix :: string where "charsPrefix = ''chars:''"

definition NamedAlphabets :: "rune list list" where
  "NamedAlphabets = sort (map (runes \<circ> fst) namedAlphabets)"

definition ResolveAlphabet :: "rune list \<Rightarrow> (alphabet_error, Alphabet) result" where
  "ResolveAlphabet spec =
     (if spec = [] then Inl EmptySpecification
      else if prefix (runes charsPrefix) spec then newAlphabet spec (drop (length charsPrefix) spec)
      else case find (\<lambda>(n, _). runes n = spec) namedAlphabets of
             None \<Rightarrow> Inl (UnknownAlphabet spec)
           | Some (_, symbols) \<Rightarrow> newAlphabet spec (runes symbols))"

section \<open>Numerals and numbers\<close>

definition numerals_ok :: "nat \<Rightarrow> u16 list \<Rightarrow> bool" where
  "numerals_ok r xs \<longleftrightarrow> list_all (\<lambda>d. unat d < r) xs"

fun digits :: "nat \<Rightarrow> nat \<Rightarrow> nat \<Rightarrow> u16 list" where
  "digits 0 r t = []"
| "digits (Suc j) r t = digits j r (t div r) @ [word_of_nat (t mod r)]"

lemma numeralValue_Nil [simp]: "numeralValue [] r = 0"
  by (simp add: numeralValue_def)

lemma numeralValue_snoc [simp]: "numeralValue (xs @ [d]) r = numeralValue xs r * r + unat d"
  by (simp add: numeralValue_def)

lemma numerals_ok_append [simp]: "numerals_ok r (xs @ ys) \<longleftrightarrow> numerals_ok r xs \<and> numerals_ok r ys"
  "numerals_ok r []" "numerals_ok r (d # xs) \<longleftrightarrow> unat d < r \<and> numerals_ok r xs"
  by (auto simp: numerals_ok_def)

lemma numeralValue_less: "numerals_ok r xs \<Longrightarrow> numeralValue xs r < r ^ length xs"
proof (induction xs rule: rev_induct)
  case (snoc d xs)
  then have "numeralValue xs r + 1 \<le> r ^ length xs" "unat d < r"
    by simp_all
  then have "(numeralValue xs r + 1) * r \<le> r ^ length xs * r"
    by (intro mult_right_mono) simp_all
  then show ?case
    using \<open>unat d < r\<close> by (simp add: algebra_simps)
qed simp

lemma numeralLoop_digits: "m \<le> length out \<Longrightarrow> numeralLoop m r t out = digits m r t @ drop m out"
proof (induction m arbitrary: t out)
  case (Suc j)
  have "drop j (out[j := w]) = w # drop (Suc j) out" for w
    using Suc.prems by (simp add: Cons_nth_drop_Suc [symmetric])
  then show ?case
    using Suc by simp
qed simp

lemma numeralString_digits: "numeralString v r m = digits m r v"
  by (simp add: numeralString_def numeralLoop_digits)

lemma length_digits [simp]: "length (digits m r t) = m"
  by (induction m arbitrary: t) simp_all

lemma unat_digit: "r \<le> 65536 \<Longrightarrow> 0 < r \<Longrightarrow> unat (word_of_nat (t mod r) :: u16) = t mod r"
  using mod_less_divisor [of r t] by (simp add: unat_of_nat del: mod_less_divisor)

lemma digits_ok: "r \<le> 65536 \<Longrightarrow> 0 < r \<Longrightarrow> numerals_ok r (digits m r t)"
  by (induction m arbitrary: t) (simp_all add: unat_digit)

lemma digits_value: "r \<le> 65536 \<Longrightarrow> 0 < r \<Longrightarrow> numeralValue (digits m r t) r = t mod r ^ m"
proof (induction m arbitrary: t)
  case (Suc m)
  then show ?case
    by (simp add: unat_digit mod_mult2_eq)
qed simp

lemma value_digits: "numerals_ok r xs \<Longrightarrow> r \<le> 65536 \<Longrightarrow> 0 < r \<Longrightarrow> digits (length xs) r (numeralValue xs r) = xs"
  by (induction xs rule: rev_induct) simp_all

section \<open>A round and its inverse\<close>

definition radix_ok :: "FF1 \<Rightarrow> bool" where
  "radix_ok f \<longleftrightarrow> MinRadix \<le> ff_radix f \<and> ff_radix f \<le> MaxRadix"

lemma radix_bounds: "radix_ok f \<Longrightarrow> 2 \<le> radixBig f \<and> radixBig f \<le> 65536"
  by (auto simp: radix_ok_def radixBig_def MinRadix_def MaxRadix_def)

definition half :: "Frame \<Rightarrow> nat \<Rightarrow> nat" where
  "half fr i = (if i mod 2 \<noteq> 0 then fr_v fr else fr_u fr)"

lemma half_Suc_Suc [simp]: "half fr (Suc (Suc i)) = half fr i"
  by (simp add: half_def)

text \<open>Before round \<open>i\<close> the halves have the lengths of that round and numerals in range.\<close>

definition halves_ok :: "FF1 \<Rightarrow> Frame \<Rightarrow> nat \<Rightarrow> u16 list \<times> u16 list \<Rightarrow> bool" where
  "halves_ok f fr i AB \<longleftrightarrow> length (fst AB) = half fr i \<and> length (snd AB) = half fr (Suc i) \<and>
     numerals_ok (radixBig f) (fst AB) \<and> numerals_ok (radixBig f) (snd AB)"

definition encRound :: "FF1 \<Rightarrow> Frame \<Rightarrow> u16 list \<times> u16 list \<Rightarrow> nat \<Rightarrow> u16 list \<times> u16 list" where
  "encRound f fr AB i = (let r = radixBig f; m = half fr i in
     (snd AB, digits m r ((numeralValue (fst AB) r + roundKey f fr i (snd AB)) mod r ^ m)))"

definition decRound :: "FF1 \<Rightarrow> Frame \<Rightarrow> u16 list \<times> u16 list \<Rightarrow> nat \<Rightarrow> u16 list \<times> u16 list" where
  "decRound f fr AB i = (let r = radixBig f; m = half fr i in
     (digits m r (nat ((int (numeralValue (snd AB) r) - int (roundKey f fr i (fst AB))) mod int (r ^ m))), fst AB))"

lemma nat_mod_add: "nat ((int x + int y) mod int M) = (x + y) mod M"
  by (metis nat_int of_nat_add zmod_int)

lemma feistelRound_enc: "feistelRound f fr True AB i = encRound f fr AB i"
  unfolding feistelRound_def encRound_def half_def Let_def split_beta numeralString_digits if_True nat_mod_add prod.sel ..

lemma feistelRound_dec: "feistelRound f fr False AB i = decRound f fr AB (feistelRounds - 1 - i)"
  unfolding feistelRound_def decRound_def half_def Let_def split_beta numeralString_digits if_False prod.sel ..

lemma encRound_ok: "radix_ok f \<Longrightarrow> halves_ok f fr i AB \<Longrightarrow> halves_ok f fr (Suc i) (encRound f fr AB i)"
  using radix_bounds [of f] by (simp add: halves_ok_def encRound_def Let_def digits_ok)

lemma decRound_ok: "radix_ok f \<Longrightarrow> halves_ok f fr (Suc i) AB \<Longrightarrow> halves_ok f fr i (decRound f fr AB i)"
  using radix_bounds [of f] by (simp add: halves_ok_def decRound_def Let_def digits_ok)

lemma nat_mod_sub: "(x :: nat) < M \<Longrightarrow> nat ((int ((x + y) mod M) - int y) mod int M) = x"
  by (simp add: zmod_int mod_diff_left_eq)

lemma nat_mod_sub_add:
  assumes "(x :: nat) < M"
  shows "(nat ((int x - int y) mod int M) + y) mod M = x"
proof -
  have "int ((nat ((int x - int y) mod int M) + y) mod M) = int x"
    using assms by (simp add: zmod_int mod_add_left_eq)
  then show ?thesis by simp
qed

lemma decRound_encRound:
  assumes "radix_ok f" "halves_ok f fr i AB"
  shows "decRound f fr (encRound f fr AB i) i = AB"
proof -
  note r = radix_bounds [OF assms(1)]
  have A: "length (fst AB) = half fr i" "numerals_ok (radixBig f) (fst AB)"
    using assms(2) by (simp_all add: halves_ok_def)
  have "numeralValue (fst AB) (radixBig f) < radixBig f ^ half fr i"
    using numeralValue_less [OF A(2)] A(1) by simp
  then show ?thesis
    using r value_digits [OF A(2)] A(1)
    by (simp add: encRound_def decRound_def Let_def digits_value nat_mod_sub del: of_nat_power)
qed

lemma encRound_decRound:
  assumes "radix_ok f" "halves_ok f fr (Suc i) AB"
  shows "encRound f fr (decRound f fr AB i) i = AB"
proof -
  note r = radix_bounds [OF assms(1)]
  have B: "length (snd AB) = half fr i" "numerals_ok (radixBig f) (snd AB)"
    using assms(2) by (simp_all add: halves_ok_def)
  have "numeralValue (snd AB) (radixBig f) < radixBig f ^ half fr i"
    using numeralValue_less [OF B(2)] B(1) by simp
  then show ?thesis
    using r value_digits [OF B(2)] B(1)
    by (simp add: encRound_def decRound_def Let_def digits_value nat_mod_sub_add mod_add_left_eq del: of_nat_power)
qed

section \<open>All rounds\<close>

lemma rounds_forward:
  assumes "radix_ok f" "halves_ok f fr 0 AB"
  shows "foldl (decRound f fr) (foldl (encRound f fr) AB [0..<n]) (rev [0..<n]) = AB \<and>
    halves_ok f fr n (foldl (encRound f fr) AB [0..<n])"
  using assms by (induction n) (simp_all add: decRound_encRound encRound_ok)

lemma rounds_backward:
  assumes "radix_ok f" "halves_ok f fr n AB"
  shows "foldl (encRound f fr) (foldl (decRound f fr) AB (rev [0..<n])) [0..<n] = AB \<and>
    halves_ok f fr 0 (foldl (decRound f fr) AB (rev [0..<n]))"
  using assms
proof (induction n arbitrary: AB)
  case (Suc n)
  note step = Suc.IH [OF assms(1) decRound_ok [OF Suc.prems]]
  show ?case
    using step encRound_decRound [OF Suc.prems] by simp
qed simp

lemma rounds_reversed: "map (\<lambda>i. feistelRounds - 1 - i) [0..<feistelRounds] = rev [0..<feistelRounds]"
  by (simp add: feistelRounds_def upt_rec)

lemma foldl_feistelRound:
  "foldl (feistelRound f fr True) AB [0..<feistelRounds] = foldl (encRound f fr) AB [0..<feistelRounds]"
  "foldl (feistelRound f fr False) AB [0..<feistelRounds] = foldl (decRound f fr) AB (rev [0..<feistelRounds])"
proof -
  have "feistelRound f fr True = encRound f fr" "feistelRound f fr False = (\<lambda>AB i. decRound f fr AB (feistelRounds - 1 - i))"
    by (rule ext, rule ext, rule feistelRound_enc, rule ext, rule ext, rule feistelRound_dec)
  then show "foldl (feistelRound f fr True) AB [0..<feistelRounds] = foldl (encRound f fr) AB [0..<feistelRounds]"
    "foldl (feistelRound f fr False) AB [0..<feistelRounds] = foldl (decRound f fr) AB (rev [0..<feistelRounds])"
    unfolding rounds_reversed [symmetric] foldl_map by simp_all
qed

definition split_halves :: "Frame \<Rightarrow> u16 list \<Rightarrow> u16 list \<times> u16 list" where
  "split_halves fr x = (take (fr_u fr) x, drop (fr_u fr) x)"

definition join_halves :: "u16 list \<times> u16 list \<Rightarrow> u16 list" where
  "join_halves AB = fst AB @ snd AB"

lemma frame_halves [simp]: "fr_u (feistelFrame f tweak n) = n div 2" "fr_v (feistelFrame f tweak n) = n - n div 2"
  by (simp_all add: feistelFrame_def Let_def)

lemma halves_even: "even i \<Longrightarrow> half fr i = fr_u fr \<and> half fr (Suc i) = fr_v fr"
  by (auto simp: half_def even_iff_mod_2_eq_zero mod_Suc)

lemma split_ok:
  "numerals_ok (radixBig f) x \<Longrightarrow> even i \<Longrightarrow> halves_ok f (feistelFrame f tweak (length x)) i (split_halves (feistelFrame f tweak (length x)) x)"
  using halves_even [of i "feistelFrame f tweak (length x)"]
  by (auto simp: halves_ok_def split_halves_def numerals_ok_def list_all_iff dest: in_set_takeD in_set_dropD)

lemma join_ok:
  assumes "halves_ok f (feistelFrame f tweak n) i AB" "even i"
  shows "length (join_halves AB) = n" "numerals_ok (radixBig f) (join_halves AB)"
    "split_halves (feistelFrame f tweak n) (join_halves AB) = AB"
  using assms halves_even [OF assms(2), of "feistelFrame f tweak n"]
  by (auto simp: halves_ok_def join_halves_def split_halves_def)

lemma join_split [simp]: "join_halves (split_halves fr x) = x"
  by (simp add: join_halves_def split_halves_def)

lemma find_range: "radix_ok f \<Longrightarrow> find (\<lambda>d. ff_radix f \<le> uint d) x = None \<longleftrightarrow> numerals_ok (radixBig f) x"
proof -
  assume "radix_ok f"
  then have "ff_radix f \<le> uint d \<longleftrightarrow> \<not> unat d < radixBig f" for d :: u16
  proof -
    have "uint d = int (unat d)" by simp
    then show ?thesis using radix_bounds [OF \<open>radix_ok f\<close>] by (simp only: radixBig_def) linarith
  qed
  then show ?thesis
    by (auto simp: find_None_iff numerals_ok_def list_all_iff)
qed

definition feistel_rounds :: "FF1 \<Rightarrow> byte list \<Rightarrow> bool \<Rightarrow> u16 list \<Rightarrow> u16 list" where
  "feistel_rounds f tweak encrypt x =
     (let fr = feistelFrame f tweak (length x) in
      join_halves (if encrypt then foldl (encRound f fr) (split_halves fr x) [0..<feistelRounds]
                   else foldl (decRound f fr) (split_halves fr x) (rev [0..<feistelRounds])))"

lemma feistel_eq:
  assumes "radix_ok f"
  shows "feistel f tweak x encrypt = Inr y \<longleftrightarrow>
    validateLen f (length x) = None \<and> numerals_ok (radixBig f) x \<and> y = feistel_rounds f tweak encrypt x"
proof -
  have "find (\<lambda>d. ff_radix f \<le> uint d) x = None \<longleftrightarrow> numerals_ok (radixBig f) x"
    by (rule find_range [OF assms])
  then show ?thesis
    by (cases encrypt; cases "find (\<lambda>d. ff_radix f \<le> uint d) x"; cases "validateLen f (length x)")
      (auto simp: feistel_def feistel_rounds_def Let_def split_beta join_halves_def split_halves_def foldl_feistelRound
        simp del: frame_halves)
qed

lemma rounds_ok:
  assumes "radix_ok f" "numerals_ok (radixBig f) x"
  shows "length (feistel_rounds f tweak e x) = length x" "numerals_ok (radixBig f) (feistel_rounds f tweak e x)"
    "feistel_rounds f tweak (\<not> e) (feistel_rounds f tweak e x) = x"
proof -
  let ?fr = "feistelFrame f tweak (length x)"
  have even: "even feistelRounds" by (simp add: feistelRounds_def)
  note start = split_ok [OF assms(2), of 0 tweak] split_ok [OF assms(2) even, of tweak]
  have enc: "halves_ok f ?fr feistelRounds (foldl (encRound f ?fr) (split_halves ?fr x) [0..<feistelRounds])"
    "foldl (decRound f ?fr) (foldl (encRound f ?fr) (split_halves ?fr x) [0..<feistelRounds]) (rev [0..<feistelRounds]) = split_halves ?fr x"
    using rounds_forward [OF assms(1) start(1), of feistelRounds] by simp_all
  have dec: "halves_ok f ?fr 0 (foldl (decRound f ?fr) (split_halves ?fr x) (rev [0..<feistelRounds]))"
    "foldl (encRound f ?fr) (foldl (decRound f ?fr) (split_halves ?fr x) (rev [0..<feistelRounds])) [0..<feistelRounds] = split_halves ?fr x"
    using rounds_backward [OF assms(1) start(2)] by simp_all
  note je = join_ok [OF enc(1) even] and jd = join_ok [OF dec(1) even_zero]
  show "length (feistel_rounds f tweak e x) = length x" "numerals_ok (radixBig f) (feistel_rounds f tweak e x)"
    using je jd by (cases e; simp add: feistel_rounds_def Let_def)+
  show "feistel_rounds f tweak (\<not> e) (feistel_rounds f tweak e x) = x"
    using je jd enc(2) dec(2) by (cases e) (simp_all add: feistel_rounds_def Let_def)
qed

section \<open>The length check\<close>

lemma minLenLoop_step:
  "minLenLoop n (int (r ^ n)) (int r) = (if r ^ n < minDomain then minLenLoop (n + 1) (int (r ^ (n + 1))) (int r) else Some n)"
proof -
  have "int (r ^ n) * int r = int (r ^ (n + 1))"
    by simp
  then show ?thesis
    by (subst minLenLoop.simps) (simp only: of_nat_less_iff)
qed

lemma minLenLoop_exact:
  assumes "2 \<le> r" "2 \<le> n" "\<forall>k. 2 \<le> k \<longrightarrow> k < n \<longrightarrow> r ^ k < minDomain"
  shows "\<exists>m. minLenLoop n (int (r ^ n)) (int r) = Some m \<and> (\<forall>k\<ge>2. m \<le> k \<longleftrightarrow> minDomain \<le> r ^ k)"
  using assms(2,3)
proof (induction "minDomain - r ^ n" arbitrary: n rule: less_induct)
  case less
  show ?case
  proof (cases "r ^ n < minDomain")
    case True
    have "r ^ n * 1 < r ^ n * r"
      using assms(1) by (intro mult_strict_left_mono) simp_all
    then have "r ^ n < r ^ (n + 1)"
      by (simp add: mult.commute)
    then have "minDomain - r ^ (n + 1) < minDomain - r ^ n"
      using True by linarith
    moreover have "\<forall>k. 2 \<le> k \<longrightarrow> k < n + 1 \<longrightarrow> r ^ k < minDomain"
      using less.prems(2) True by (auto simp: less_Suc_eq)
    ultimately show ?thesis
      using less.hyps [of "n + 1"] less.prems(1) True
      by (subst minLenLoop_step) simp
  next
    case False
    have "n \<le> k \<longleftrightarrow> minDomain \<le> r ^ k" if "2 \<le> k" for k
    proof
      assume "n \<le> k"
      then have "r ^ n \<le> r ^ k"
        using assms(1) by (intro power_increasing) simp_all
      with False show "minDomain \<le> r ^ k" by simp
    next
      assume "minDomain \<le> r ^ k"
      then show "n \<le> k"
        using less.prems(2) that by (meson leD leI)
    qed
    then show ?thesis
      using False by (subst minLenLoop_step) simp
  qed
qed

lemma validateLen_iff:
  assumes "radix_ok f"
  shows "validateLen f n = None \<longleftrightarrow> 2 \<le> n \<and> n < 2 ^ 32 \<and> minDomain \<le> radixBig f ^ n"
proof -
  obtain m where m: "MinLen (ff_radix f) = Some m" "\<And>k. 2 \<le> k \<Longrightarrow> m \<le> k \<longleftrightarrow> minDomain \<le> radixBig f ^ k"
  proof -
    have "int (radixBig f) = ff_radix f"
      using radix_bounds [OF assms] unfolding radixBig_def by linarith
    then show ?thesis
      using minLenLoop_exact [of "radixBig f" 2] radix_bounds [OF assms] that by (auto simp: MinLen_def)
  qed
  show ?thesis
    using m(2) [of n] by (auto simp: validateLen_def m(1) not_less)
qed

lemma NewFF1_radix:
  assumes "NewFF1 aes key radix = Inr f"
  shows "radix_ok f" "radixBig f = nat radix"
proof -
  have "MinRadix \<le> radix \<and> radix \<le> MaxRadix"
    using assms by (auto simp: NewFF1_def split: if_splits)
  then show "radix_ok f" "radixBig f = nat radix"
    using assms by (auto simp: NewFF1_def radix_ok_def radixBig_def split: if_splits sum.splits)
qed

text \<open>
  C22. Decryption inverts encryption and encryption inverts decryption, for every block
  function, key, tweak and numeral string; one accepts exactly what the other returns.
\<close>

theorem FF1_roundtrip:
  assumes "NewFF1 aes key radix = Inr f"
  shows "FF1_Encrypt f tweak x = Inr y \<longleftrightarrow> FF1_Decrypt f tweak y = Inr x"
proof -
  have f: "radix_ok f"
    by (rule NewFF1_radix [OF assms])
  show ?thesis
    using rounds_ok [OF f, of x tweak True] rounds_ok [OF f, of y tweak False]
    by (auto simp: FF1_Encrypt_def FF1_Decrypt_def feistel_eq [OF f])
qed

text \<open>
  C23. Encryption succeeds exactly on strings of at least two and fewer than \<open>2 ^ 32\<close>
  numerals below the radix whose domain has at least a million values, and then returns a
  string of the same length of numerals below the radix.
\<close>

theorem FF1_format:
  assumes "NewFF1 aes key radix = Inr f"
  shows "(\<exists>y. FF1_Encrypt f tweak x = Inr y \<and> length y = length x \<and> numerals_ok (nat radix) y) \<longleftrightarrow>
    2 \<le> length x \<and> length x < 2 ^ 32 \<and> 1000000 \<le> nat radix ^ length x \<and> numerals_ok (nat radix) x"
proof -
  note f = NewFF1_radix [OF assms]
  have "(\<exists>y. FF1_Encrypt f tweak x = Inr y \<and> length y = length x \<and> numerals_ok (radixBig f) y) \<longleftrightarrow>
      validateLen f (length x) = None \<and> numerals_ok (radixBig f) x"
    using rounds_ok [OF f(1), of x tweak True] by (auto simp: FF1_Encrypt_def feistel_eq [OF f(1)])
  then show ?thesis
    by (simp add: validateLen_iff [OF f(1)] f(2) minDomain_def conj_ac)
qed

section \<open>The input of a round\<close>

lemma be_value_big_bytes [simp]: "be_value (big_bytes n) = n"
proof (induction n rule: big_bytes.induct)
  case (1 n)
  have "unat (word_of_nat n :: byte) = n mod 256"
    by (simp add: unat_of_nat)
  with 1 show ?case
    by (subst big_bytes.simps) simp
qed

lemma length_big_bytes: "n < 256 ^ k \<Longrightarrow> length (big_bytes n) \<le> k"
proof (induction n arbitrary: k rule: big_bytes.induct)
  case (1 n)
  show ?case
  proof (cases k)
    case (Suc k')
    then have "n div 256 < 256 ^ k'"
      using 1(2) by (simp add: less_mult_imp_div_less mult.commute)
    with 1(1) Suc show ?thesis
      by (subst big_bytes.simps) simp
  qed (use 1(2) in \<open>simp add: big_bytes.simps\<close>)
qed

lemma be_value_zeros [simp]: "be_value (replicate k 0 @ bs) = be_value bs"
  by (induction k) simp_all

lemma appendUintBytes_fits:
  assumes "v < 256 ^ width"
  shows "\<exists>tail. appendUintBytes dst v width = dst @ tail \<and> length tail = width \<and> be_value tail = v"
proof (intro exI conjI)
  show "appendUintBytes dst v width = dst @ replicate (width - length (big_bytes v)) 0 @ big_bytes v"
    using length_big_bytes [OF assms] by (simp add: appendUintBytes_def Let_def)
  show "length (replicate (width - length (big_bytes v)) (0 :: byte) @ big_bytes v) = width"
    using length_big_bytes [OF assms] by simp
  show "be_value (replicate (width - length (big_bytes v)) 0 @ big_bytes v) = v"
    by (simp only: be_value_zeros be_value_big_bytes)
qed

lemma bit_len_less: "n < 2 ^ bit_len n"
proof (induction n rule: bit_len.induct)
  case (1 n)
  show ?case
  proof (cases "n = 0")
    case False
    with 1 have "n div 2 < 2 ^ bit_len (n div 2)" by simp
    with False show ?thesis
      by (subst bit_len.simps) simp
  qed (simp add: bit_len.simps)
qed

lemma go_rem_16: "0 \<le> go_rem (go_rem a 16 + 16) 16 \<and> go_rem (go_rem a 16 + 16) 16 = a mod 16"
proof -
  have "- 16 < go_rem a 16"
    using pos_mod_bound [of 16 "\<bar>a\<bar>"] by (auto simp: go_rem_def sgn_if)
  moreover have "go_rem a 16 mod 16 = a mod 16"
    by (auto simp: go_rem_def sgn_if mod_minus_eq)
  ultimately show ?thesis
    by (auto simp: go_rem_def [of "go_rem a 16 + 16"] sgn_if)
qed

lemma frame_pad: "16 dvd length tweak + fr_padLen (feistelFrame f tweak n) + 1 + fr_b (feistelFrame f tweak n)"
proof -
  let ?fr = "feistelFrame f tweak n"
  have "int (fr_padLen ?fr) = (- int (length tweak) - int (fr_b ?fr) - 1) mod 16"
    using go_rem_16 [of "- int (length tweak) - int (fr_b ?fr) - 1"] by (simp add: feistelFrame_def Let_def)
  then have "(int (length tweak) + int (fr_padLen ?fr) + 1 + int (fr_b ?fr)) mod 16 = 0"
    by (simp only:) presburger
  then have "int 16 dvd int (length tweak + fr_padLen ?fr + 1 + fr_b ?fr)"
    by (simp add: dvd_eq_mod_eq_0 add_ac)
  then show ?thesis
    by (simp only: of_nat_dvd_iff)
qed

lemma frame_b:
  assumes "radix_ok f"
  shows "radixBig f ^ (n - n div 2) \<le> 256 ^ fr_b (feistelFrame f tweak n)"
proof -
  let ?p = "radixBig f ^ (n - n div 2)" and ?b = "fr_b (feistelFrame f tweak n)"
  have "0 < ?p"
    using radix_bounds [OF assms] by simp
  moreover have "?p - 1 < 2 ^ bit_len (?p - 1)"
    by (rule bit_len_less)
  ultimately have "?p \<le> 2 ^ bit_len (?p - 1)"
    by linarith
  also have "\<dots> \<le> 2 ^ (8 * ?b)"
    by (intro power_increasing) (auto simp: feistelFrame_def Let_def)
  also have "\<dots> = 256 ^ ?b"
    by (simp add: power_mult)
  finally show ?thesis .
qed

text \<open>
  C38. In every round the prefix is one block, the input of the keyed function fills whole
  blocks, and its last bytes hold the number of the source half exactly: the truncation of
  the encoder never happens.
\<close>

theorem round_input_exact:
  assumes "NewFF1 aes key radix = Inr f" "numerals_ok (nat radix) src" "length src \<le> n - n div 2"
    and "fr = feistelFrame f tweak n"
  shows "length (fr_P fr) = 16 \<and> 16 dvd length (roundInput f fr i src) \<and>
    (\<exists>head tail. roundInput f fr i src = tweak @ head @ tail \<and> length tail = fr_b fr \<and>
       be_value tail = numeralValue src (nat radix))"
proof -
  note f = NewFF1_radix [OF assms(1)]
  have "numeralValue src (radixBig f) < radixBig f ^ length src"
    using assms(2) f(2) by (simp add: numeralValue_less)
  also have "\<dots> \<le> radixBig f ^ (n - n div 2)"
    using radix_bounds [OF f(1)] assms(3) by (intro power_increasing) simp_all
  also have "\<dots> \<le> 256 ^ fr_b fr"
    using frame_b [OF f(1)] by (simp add: assms(4))
  finally obtain tail where tail: "length tail = fr_b fr" "be_value tail = numeralValue src (nat radix)"
    "roundInput f fr i src = (fr_tweak fr @ replicate (fr_padLen fr) 0 @ [word_of_nat i]) @ tail"
    using appendUintBytes_fits unfolding roundInput_def f(2) [symmetric] by blast
  have "fr_tweak fr = tweak" "length (fr_P fr) = 16"
    by (simp_all add: assms(4) feistelFrame_def Let_def)
  moreover from this(1) have "16 dvd length (roundInput f fr i src)"
    using frame_pad [of tweak f n, folded assms(4)] by (simp add: tail add_ac)
  moreover have "roundInput f fr i src = tweak @ (replicate (fr_padLen fr) 0 @ [word_of_nat i]) @ tail"
    by (simp add: tail \<open>fr_tweak fr = tweak\<close>)
  ultimately show ?thesis
    using tail(1,2) by blast
qed

section \<open>Text and numerals\<close>

text \<open>The index of an alphabet is the inverse of its symbol list.\<close>

definition alphabet_ok :: "Alphabet \<Rightarrow> bool" where
  "alphabet_ok a \<longleftrightarrow> MinRadix \<le> Radix a \<and> Radix a \<le> MaxRadix \<and>
     (\<forall>r v. ab_index a r = Some v \<longleftrightarrow> unat v < length (ab_symbols a) \<and> ab_symbols a ! unat v = r)"

lemma indexLoop_ok:
  assumes "indexLoop name i rs idx = Inr idx'" "length seen = i" "i + length rs \<le> 65536"
    and "\<forall>r v. idx r = Some v \<longleftrightarrow> unat v < i \<and> seen ! unat v = r"
  shows "\<forall>r v. idx' r = Some v \<longleftrightarrow> unat v < length (seen @ rs) \<and> (seen @ rs) ! unat v = r"
  using assms
proof (induction rs arbitrary: i idx seen)
  case (Cons s rs)
  have fresh: "idx s = None" and rest: "indexLoop name (Suc i) rs (idx(s \<mapsto> word_of_nat i)) = Inr idx'"
    using Cons.prems(1) by (simp_all split: if_splits)
  have i: "unat (word_of_nat i :: u16) = i"
    using Cons.prems(3) by (simp add: unat_of_nat)
  have "\<forall>r v. (idx(s \<mapsto> word_of_nat i)) r = Some v \<longleftrightarrow> unat v < Suc i \<and> (seen @ [s]) ! unat v = r"
  proof (intro allI)
    fix r and v :: u16
    have "unat v = i \<longleftrightarrow> v = word_of_nat i"
      using i by (metis unat_eq_iff)
    moreover have "idx r = Some v \<longleftrightarrow> unat v < i \<and> seen ! unat v = r"
      using Cons.prems(4) by blast
    moreover have "\<not> (unat v < i \<and> seen ! unat v = s)"
      using Cons.prems(4) fresh by force
    ultimately show "(idx(s \<mapsto> word_of_nat i)) r = Some v \<longleftrightarrow> unat v < Suc i \<and> (seen @ [s]) ! unat v = r"
      using Cons.prems(2) i by (cases "r = s") (auto simp: nth_append less_Suc_eq)
  qed
  from Cons.IH [OF rest _ _ this] Cons.prems(2,3) show ?case by simp
qed simp

lemma newAlphabet_ok:
  assumes "newAlphabet name symbols = Inr a"
  shows "alphabet_ok a" "ab_symbols a = symbols"
proof -
  have len: "MinRadix \<le> int (length symbols)" "int (length symbols) \<le> MaxRadix"
    using assms by (auto simp: newAlphabet_def split: if_splits)
  obtain idx where idx: "indexLoop name 0 symbols Map.empty = Inr idx"
    "a = \<lparr>ab_name = name, ab_symbols = symbols, ab_index = idx\<rparr>"
    using assms by (auto simp: newAlphabet_def split: if_splits sum.splits)
  show "ab_symbols a = symbols" by (simp add: idx)
  show "alphabet_ok a"
    using indexLoop_ok [OF idx(1), of "[]"] len by (simp add: alphabet_ok_def idx Radix_def MaxRadix_def)
qed

lemma ResolveAlphabet_ok: "ResolveAlphabet spec = Inr a \<Longrightarrow> alphabet_ok a"
  by (auto simp: ResolveAlphabet_def intro: newAlphabet_ok split: if_splits option.splits prod.splits)

lemma ToNumerals_iff:
  assumes "alphabet_ok a"
  shows "ToNumerals a s = Inr x \<longleftrightarrow> FromNumerals a x = Some s"
proof (induction s arbitrary: x)
  case Nil
  show ?case by (cases x) (auto split: if_splits)
next
  case (Cons r s)
  have idx: "ab_index a r = Some v \<longleftrightarrow> unat v < length (ab_symbols a) \<and> ab_symbols a ! unat v = r" for v
    using assms by (simp add: alphabet_ok_def)
  show ?case
  proof (cases x)
    case Nil
    then show ?thesis by (auto split: option.splits sum.splits)
  next
    case x: (Cons v x')
    show ?thesis
      using Cons.IH [of x'] idx [of v]
      by (auto simp: x not_le split: option.splits sum.splits)
  qed
qed


text \<open>Concrete instances: a cipher of radix 10 over a toy block function, and an inline alphabet.\<close>

definition demo_ff1 :: FF1 where
  "demo_ff1 = \<lparr>ff_block = (\<lambda>b. map (\<lambda>x. x + 1) b), ff_radix = 10\<rparr>"

lemma demo_ff1_new: "NewFF1 (\<lambda>_. Inr (\<lambda>b. map (\<lambda>x. x + 1) b)) [] 10 = Inr demo_ff1"
  by (simp add: NewFF1_def MinRadix_def MaxRadix_def demo_ff1_def)

theorem FF1_roundtrip_witness:
  "\<exists>y. FF1_Encrypt demo_ff1 [7] [1, 2, 3, 4, 5, 6, 7] = Inr y \<and> FF1_Decrypt demo_ff1 [7] y = Inr [1, 2, 3, 4, 5, 6, 7]"
proof -
  have "feistel demo_ff1 [7] [1, 2, 3, 4, 5, 6, 7] True = Inr (feistel_rounds demo_ff1 [7] True [1, 2, 3, 4, 5, 6, 7])"
    using NewFF1_radix [OF demo_ff1_new]
    by (subst feistel_eq) (simp_all add: validateLen_iff minDomain_def numerals_ok_def)
  then show ?thesis
    using FF1_roundtrip [OF demo_ff1_new] unfolding FF1_Encrypt_def by blast
qed

theorem FF1_format_witness: "\<exists>y. FF1_Encrypt demo_ff1 [] [0, 9, 0, 9, 0, 9] = Inr y \<and> length y = 6"
proof -
  have "\<exists>y. FF1_Encrypt demo_ff1 [] [0, 9, 0, 9, 0, 9] = Inr y \<and> length y = length [0, 9, 0, 9, 0, 9 :: u16] \<and> numerals_ok (nat 10) y"
    by (subst FF1_format [OF demo_ff1_new]) (simp add: numerals_ok_def)
  then show ?thesis by auto
qed

theorem round_input_exact_witness:
  "16 dvd length (roundInput demo_ff1 (feistelFrame demo_ff1 [7] 7) 3 [1, 2, 3])"
  using round_input_exact [OF demo_ff1_new _ _ refl, of "[1, 2, 3]" 7 "[7]" 3] by (simp add: numerals_ok_def)


end
