(* ===== verification/Spec2Isabelle.thy ===== *)
theory Spec2Isabelle
  imports Shamir Authz Approval_Safety HSM_Collector_Safety FF1_Cipher
begin

text \<open>
  Verification of parts of the secsy-pki server. (Full overview below is kept with the
  component theories.)
\<close>

section \<open>Requests and the audit trail\<close>

text \<open>One request against the access-control endpoints, with the failures of the store while it runs.\<close>

datatype request =
    ReqCreate Req "ResourceGrantRequest option"
  | ReqDelete Req "ResourceGrantRequest option"
  | ReqList string
  | ReqEffective string string
  | ReqManageCA Req string string
  | ReqEvents EventQuery
  | ReqVerify

definition serve ::
  "hash_fn \<Rightarrow> (put_error \<Rightarrow> string) \<Rightarrow> string list \<Rightarrow> API \<Rightarrow> (db_query \<Rightarrow> string option) \<times> Ctx \<times> request \<Rightarrow> API" where
  "serve sha256 errText walk a x =
     (let (fails, cx, req) = x; a = a\<lparr>a_db := (a_db a)\<lparr>db_fails := fails\<rparr>\<rparr> in
      case req of
        ReqCreate rq body \<Rightarrow> fst (snd (CreateResourceGrant sha256 errText walk rq body a cx))
      | ReqDelete rq body \<Rightarrow> fst (snd (DeleteResourceGrant sha256 rq body a cx))
      | ReqList spec \<Rightarrow> fst (snd (ListResourceGrants spec a cx))
      | ReqEffective spec subject \<Rightarrow> fst (snd (EffectiveAccessHandler walk spec subject a cx))
      | ReqManageCA rq caID action \<Rightarrow> fst (snd (authorizeCAManage sha256 rq caID action a cx))
      | ReqEvents q \<Rightarrow> fst (snd (ListEventLog walk q a cx))
      | ReqVerify \<Rightarrow> fst (snd (VerifyEventLog sha256 a cx)))"

text \<open>A handler leaves the event log alone or appends to it once.\<close>

definition logs_once :: "hash_fn \<Rightarrow> API \<Rightarrow> API \<Rightarrow> bool" where
  "logs_once sha256 a a' \<longleftrightarrow> db_event_log (a_db a') = db_event_log (a_db a) \<or>
     (\<exists>io now e. db_event_log (a_db a') = snd (AppendEvent sha256 io now e (db_event_log (a_db a))))"

lemma logs_once_refl [simp]: "a_db a' = a_db a \<Longrightarrow> logs_once sha256 a a'"
  by (simp add: logs_once_def)

lemma logs_once_record:
  "db_event_log (a_db b) = db_event_log (a_db a) \<Longrightarrow> logs_once sha256 a (recordEvent sha256 rq cx x y z r d b)"
  unfolding logs_once_def recordEvent_def recordEventCtx_def Let_def by auto

lemma PutResourceGrant_log: "db_event_log (snd (PutResourceGrant now g db)) = db_event_log db"
  by (simp add: PutResourceGrant_cases split: option.splits)

lemma CreateResourceGrant_logs: "logs_once sha256 a (fst (snd (CreateResourceGrant sha256 err walk rq body a cx)))"
proof (cases body)
  case (Some req)
  obtain x a1 cx1 where auth: "authorizeGrantAdmin (rq_Resource req) a cx = (x, a1, cx1)"
    by (metis prod.exhaust)
  note state = authorizeGrantAdmin_state [OF auth]
  show ?thesis
    using auth state Some
    by (cases x) (auto simp: CreateResourceGrant_def canInTenant_def PutResourceGrant_cases Let_def
        intro!: logs_once_record split: option.splits)
qed (simp add: CreateResourceGrant_def)

lemma DeleteResourceGrant_logs: "logs_once sha256 a (fst (snd (DeleteResourceGrant sha256 rq body a cx)))"
proof (cases body)
  case (Some req)
  obtain x a1 cx1 where auth: "authorizeGrantAdmin (rq_Resource req) a cx = (x, a1, cx1)"
    by (metis prod.exhaust)
  note state = authorizeGrantAdmin_state [OF auth]
  show ?thesis
    using auth state Some
    by (cases x) (auto simp: DeleteResourceGrant_def DB_DeleteResourceGrant_def Let_def logs_once_def
        intro!: logs_once_record [unfolded logs_once_def] split: option.splits)
qed (simp add: DeleteResourceGrant_def)

lemma readers_keep_db:
  "a_db (fst (snd (ListResourceGrants spec a cx))) = a_db a"
  "a_db (fst (snd (EffectiveAccessHandler walk spec subject a cx))) = a_db a"
  "a_db (fst (snd (ListEventLog walk q a cx))) = a_db a"
  "a_db (fst (snd (VerifyEventLog sha256 a cx))) = a_db a"
proof -
  show "a_db (fst (snd (ListResourceGrants spec a cx))) = a_db a"
    by (auto simp: ListResourceGrants_def dest: authorizeGrantAdmin_state split: prod.splits sum.splits)
  show "a_db (fst (snd (EffectiveAccessHandler walk spec subject a cx))) = a_db a"
    by (auto simp: EffectiveAccessHandler_def canOnResource_def Let_def dest: authorizeGrantAdmin_state
        split: prod.splits sum.splits)
qed (auto simp: ListEventLog_def VerifyEventLog_def canRead_def API_can_def Let_def split: prod.splits sum.splits option.splits)

lemma authorizeCAManage_logs: "logs_once sha256 a (fst (snd (authorizeCAManage sha256 rq ca act a cx)))"
  by (auto simp: authorizeCAManage_def canOnResource_def Let_def intro!: logs_once_record split: sum.splits)

lemma serve_logs: "logs_once sha256 a (serve sha256 errText walk a x)"
proof -
  obtain fails cx req where x: "x = (fails, cx, req)"
    by (cases x)
  define b where "b = a\<lparr>a_db := (a_db a)\<lparr>db_fails := fails\<rparr>\<rparr>"
  have "db_event_log (a_db b) = db_event_log (a_db a)"
    by (simp add: b_def)
  moreover have "logs_once sha256 b (serve sha256 errText walk a x)"
    by (cases req) (simp_all add: serve_def x b_def [symmetric] CreateResourceGrant_logs DeleteResourceGrant_logs
        authorizeCAManage_logs readers_keep_db)
  ultimately show ?thesis
    by (simp add: logs_once_def)
qed

lemma serve_log_ok:
  assumes "\<And>m. sha256 m \<noteq> []"
  shows "log_ok sha256 (db_event_log (a_db a)) \<Longrightarrow> length (db_event_log (a_db a)) + length xs < 2 ^ 63 \<Longrightarrow>
    log_ok sha256 (db_event_log (a_db (foldl (serve sha256 errText walk) a xs)))"
proof (induction xs arbitrary: a)
  case (Cons x xs)
  let ?log = "db_event_log (a_db a)" and ?log' = "db_event_log (a_db (serve sha256 errText walk a x))"
  have "log_ok sha256 ?log' \<and> length ?log' \<le> length ?log + 1"
    using serve_logs [of sha256 a errText walk x, unfolded logs_once_def]
  proof
    assume "\<exists>io now e. ?log' = snd (AppendEvent sha256 io now e ?log)"
    then obtain io now e where e: "?log' = snd (AppendEvent sha256 io now e ?log)"
      by blast
    show ?thesis
      using AppendEvent_ok [OF assms Cons.prems(1) _ refl, of now e] Cons.prems e
      by (cases io) (simp_all add: AppendEvent_alt)
  qed (use Cons.prems in simp)
  then show ?case
    using Cons.IH [of "serve sha256 errText walk a x"] Cons.prems(2) by simp
qed simp

lemma verifyChainLoop_Count: "vr_Count (verifyChainLoop sha256 n i p s es) = n"
  by (induction es arbitrary: i p s) simp_all

lemma VerifyFullChain_Count: "vr_Count (VerifyFullChain sha256 es) = length es"
  by (simp add: VerifyFullChain_def VerifyChain_def verifyChainLoop_Count split: list.split)

text \<open>
  C37. The audit trail survives every history of access-control requests: starting with
  an empty log, after any sequence of requests by any callers, whatever each was
  answered and whichever database calls failed, a caller who may read the audit log and
  whose read succeeds is told that the log verifies.
\<close>

theorem served_log_verifies:
  assumes "\<forall>m. length (sha256 m) = 32" "db_event_log (a_db a) = []" "length history < 2 ^ 63"
    and "a' = foldl (serve sha256 errText walk) a history"
    and "decide (cx_UserInfo cx) ActionReadAudit" "db_fails (a_db a') QAllEvents = None"
  shows "\<exists>res. fst (VerifyEventLog sha256 a' cx) = Verified 200 res \<and> vr_Valid res \<and>
    vr_Count res = length (db_event_log (a_db a'))"
proof -
  have ne: "sha256 m \<noteq> []" for m
    using assms(1) by (metis list.size(3) zero_neq_numeral)
  have "log_ok sha256 (db_event_log (a_db a'))"
    unfolding assms(4) by (rule serve_log_ok [OF ne]) (use assms in \<open>simp_all add: log_ok_def VerifyFullChain_spec\<close>)
  then show ?thesis
    using assms(5,6)
    by (simp add: VerifyEventLog_def API_can_def VerifyEventChain_def log_ok_sorted VerifyFullChain_Count Let_def)
      (simp add: log_ok_def)
qed

definition demo_auditor :: UserInfo where
  "demo_auditor = (demo_user ''amy'' Map.empty)\<lparr>ui_Roles := [RoleAuditor]\<rparr>"

lemma manage_keeps_fails: "db_fails (a_db (fst (snd (authorizeCAManage h rq ca act a cx)))) = db_fails (a_db a)"
  by (simp add: authorizeCAManage_def canOnResource_def Let_def split: sum.splits)

theorem served_log_verifies_witness:
  "\<exists>res. fst (VerifyEventLog (\<lambda>_. replicate 32 0)
     (foldl (serve (\<lambda>_. replicate 32 0) (\<lambda>_. '''') [''ca/root'']) demo_api
        [(\<lambda>_. None, demo_ctx olga, ReqCreate demo_req (Some demo_body)),
         (\<lambda>_. None, demo_ctx mallory, ReqManageCA demo_req ''leaf'' ''ca.rotate'')])
     (demo_ctx demo_auditor)) = Verified 200 res"
proof -
  let ?hash = "\<lambda>_ :: byte list. replicate 32 (0 :: byte)"
  let ?history = "[(\<lambda>_. None, demo_ctx olga, ReqCreate demo_req (Some demo_body)),
    (\<lambda>_. None, demo_ctx mallory, ReqManageCA demo_req ''leaf'' ''ca.rotate'')]"
  have "decide (cx_UserInfo (demo_ctx demo_auditor)) ActionReadAudit"
    by code_simp
  moreover have "db_fails (a_db (foldl (serve ?hash (\<lambda>_. '''') [''ca/root'']) demo_api ?history)) QAllEvents = None"
    by (simp add: serve_def [of _ _ _ _ "(_, _, ReqManageCA _ _ _)"] manage_keeps_fails)
  moreover have "\<forall>m. length (?hash m) = 32" "db_event_log (a_db demo_api) = []" "length ?history < 2 ^ 63"
    by (simp_all add: demo_api_def demo_db_def)
  ultimately show ?thesis
    using served_log_verifies [of ?hash demo_api ?history _ "\<lambda>_. ''''" "[''ca/root'']" "demo_ctx demo_auditor"] by blast
qed

end
